theory Spec2Isabelle
  imports Complex_Main "HOL-Library.AList"
begin

section \<open>Numbers and pandas series\<close>

text \<open>
  A cell of a table is a float that pandas may treat as null.  Inside \<open>NLS\<close> the option
  \<open>use_inf_as_null\<close> is set, so NaN and the two infinities are all null there; \<open>None\<close>
  stands for such a null value and \<open>Some r\<close> for the finite number \<open>r\<close>.  Arithmetic is
  the arithmetic of the reals (rounding and overflow of float64 are not modelled); any
  operation with a null operand gives null, as NaN and the infinities do in the
  expressions of this module.
\<close>

type_synonym float = "real option"

definition fsub :: "float \<Rightarrow> float \<Rightarrow> float" where
  "fsub a b = (case a of None \<Rightarrow> None | Some u \<Rightarrow> (case b of None \<Rightarrow> None | Some v \<Rightarrow> Some (u - v)))"

definition fmul :: "float \<Rightarrow> float \<Rightarrow> float" where
  "fmul a b = (case a of None \<Rightarrow> None | Some u \<Rightarrow> (case b of None \<Rightarrow> None | Some v \<Rightarrow> Some (u * v)))"

definition fdiv :: "float \<Rightarrow> float \<Rightarrow> float" where
  \<comment> \<open>numpy division: a zero divisor gives NaN or an infinity, never an exception\<close>
  "fdiv a b = (case a of None \<Rightarrow> None | Some u \<Rightarrow>
     (case b of None \<Rightarrow> None | Some v \<Rightarrow> if v = 0 then None else Some (u / v)))"

definition np_log :: "float \<Rightarrow> float" where
  \<comment> \<open>\<open>np.log\<close>: NaN below zero, minus infinity at zero\<close>
  "np_log a = (case a of None \<Rightarrow> None | Some u \<Rightarrow> if 0 < u then Some (ln u) else None)"

definition np_exp :: "float \<Rightarrow> float" where
  "np_exp a = map_option exp a"

text \<open>
  A \<open>Series\<close> is a sequence of values, each with its index label.  The labels of the
  tables of this module are the numbers of the x axis.  An index is taken to have no
  repeated label: \<open>lookup\<close> and \<open>union_index\<close> below are what pandas does on such
  indexes, and what it does with repeated labels is not modelled.
\<close>

type_synonym series = "(real \<times> float) list"

definition lookup :: "series \<Rightarrow> real \<Rightarrow> float" where
  \<comment> \<open>the value at a label after alignment: null where the series has no such label\<close>
  "lookup s i = (case map_of s i of None \<Rightarrow> None | Some v \<Rightarrow> v)"

definition union_index :: "real list \<Rightarrow> real list \<Rightarrow> real list" where
  \<comment> \<open>the outer join of two indexes: equal indexes are kept, others are merged and sorted\<close>
  "union_index a b = (if a = b then a else sort (remdups (a @ b)))"

definition series_binop :: "(float \<Rightarrow> float \<Rightarrow> float) \<Rightarrow> series \<Rightarrow> series \<Rightarrow> series" where
  \<comment> \<open>arithmetic of two series aligns them on the union of their labels\<close>
  "series_binop f a b =
     map (\<lambda>i. (i, f (lookup a i) (lookup b i))) (union_index (map fst a) (map fst b))"

definition series_apply :: "(float \<Rightarrow> float) \<Rightarrow> series \<Rightarrow> series" where
  \<comment> \<open>\<open>Series.apply\<close> and the numpy functions on a series: labels kept\<close>
  "series_apply g s = map (\<lambda>(i, v). (i, g v)) s"

definition dropna :: "series \<Rightarrow> series" where
  "dropna s = filter (\<lambda>(i, v). v \<noteq> None) s"

definition mean :: "series \<Rightarrow> float" where
  \<comment> \<open>\<open>Series.mean\<close> skips nulls; the mean of no value is NaN\<close>
  "mean s = (let vs = List.map_filter snd s
             in if vs = [] then None else Some (sum_list vs / real (length vs)))"

definition fillna :: "float \<Rightarrow> series \<Rightarrow> series" where
  "fillna m s = map (\<lambda>(i, v). (i, case v of None \<Rightarrow> m | Some u \<Rightarrow> Some u)) s"

section \<open>Parameters and the residual function\<close>

text \<open>
  An lmfit \<open>Parameter\<close> as far as this module reads it (its value and its standard
  error), and \<open>Parameters\<close>, an ordered dictionary from names to them.
\<close>

record param =
  param_value :: float
  param_stderr :: float

type_synonym parameters = "(string \<times> param) list"

type_synonym model = "float \<Rightarrow> parameters \<Rightarrow> float"

text \<open>
  \<open>residual_func\<close> is the closure of \<open>NLS\<close> over \<open>model_func\<close> and \<open>log_residual\<close>;
  both are arguments here.
\<close>

definition residual_func ::
  "model \<Rightarrow> bool \<Rightarrow> parameters \<Rightarrow> series \<Rightarrow> series \<Rightarrow> series option \<Rightarrow> float list" where
  "residual_func model_func log_residual params x y weights =
     (let f = series_apply (\<lambda>x. model_func x params) x;
          e = (if log_residual
               then series_binop fsub (series_apply np_log y) (series_apply np_log f)
               else series_binop fsub y f);
          e = fillna (mean e) e
      in case weights of
           None \<Rightarrow> map snd e
         | Some w \<Rightarrow> map snd (series_binop fmul e w))"

section \<open>Tables\<close>

text \<open>
  A \<open>DataFrame\<close>: the row labels and, per column label, the cells of that column, one per
  row.  Setting a column that exists replaces it, setting a new one appends it.
\<close>

record ('i, 'c) frame =
  index :: "'i list"
  columns :: "('c \<times> float list) list"

definition column_series :: "real list \<Rightarrow> float list \<Rightarrow> series" where
  \<comment> \<open>\<open>ys[col]\<close>: the cells of a column under the row labels of the table\<close>
  "column_series idx cells = zip idx cells"

definition x_axis :: "(real, 'c) frame \<Rightarrow> series" where
  \<comment> \<open>\<open>Series(data.index.values, index=data.index, dtype=np.float64)\<close>\<close>
  "x_axis data = map (\<lambda>i. (i, Some i)) (index data)"

definition reindex :: "'i list \<Rightarrow> ('i \<times> float) list \<Rightarrow> float list" where
  \<comment> \<open>a series assigned to a column is conformed to the row labels of the frame\<close>
  "reindex names s = map (\<lambda>n. case map_of s n of None \<Rightarrow> None | Some v \<Rightarrow> v) names"

definition set_column :: "('i, 'c) frame \<Rightarrow> 'c \<Rightarrow> float list \<Rightarrow> ('i, 'c) frame" where
  "set_column F col cells = F\<lparr>columns := AList.update col cells (columns F)\<rparr>"

definition transpose_frame :: "('i, 'c) frame \<Rightarrow> ('c, 'i) frame" where
  \<comment> \<open>\<open>.T\<close>\<close>
  "transpose_frame F =
     \<lparr>index = map fst (columns F),
      columns = map (\<lambda>(j, n). (n, map (\<lambda>(c, cells). cells ! j) (columns F)))
                  (enumerate 0 (index F))\<rparr>"

datatype error =
    AssertionError string
  | IndexError
  | TypeError
  | AttributeError
  | NameError
  | ValueError
  | ConcatError

definition Series :: "float list \<Rightarrow> real list \<Rightarrow> error + series" where
  \<comment> \<open>\<open>Series(values, index=...)\<close>: as many values as labels, or it raises\<close>
  "Series vals idx = (if length vals = length idx then Inr (zip idx vals) else Inl ValueError)"

definition pd_concat :: "('c \<times> series) list \<Rightarrow> error + ('c \<times> series) list" where
  \<comment> \<open>\<open>pd.concat(d, axis=1)\<close> of a dictionary of series: it raises on an empty dictionary.
      The frame it builds is kept as its columns, each series under its key; the order
      in which concat arranges the keys is not modelled.\<close>
  "pd_concat d = (case d of [] \<Rightarrow> Inl ConcatError | _ # _ \<Rightarrow> Inr d)"

section \<open>The Result class\<close>

text \<open>
  What an attribute of a \<open>Result\<close> object can hold: one of the two transposed tables, a
  concatenation of per-column series, or the curried model.
\<close>

datatype 'c attr =
    Frame "('c, string) frame"
  | Panel "('c \<times> series) list"
  | Closure "float \<Rightarrow> float"

text \<open>
  \<open>class Result:\<close> has no base class and the module is Python 2 (it has a \<open>print\<close>
  statement), so \<open>Result\<close> is a classic class.  An instance is its attribute dictionary.
  Assignment to an attribute of a classic instance stores into that dictionary, whether
  or not the class has a property of that name; reading looks in the dictionary first
  and then in the class, where a property calls its getter with the instance as the only
  argument.

  The class declares four properties.  Each getter returns one underscored attribute;
  the getters of \<open>values\<close> and \<open>stderr\<close> take \<open>self\<close>, those of \<open>residual\<close> and
  \<open>fits\<close> are declared as \<open>(self, value)\<close>.
\<close>

record 'c result =
  in_dict :: "(string \<times> 'c attr) list"

definition Result_property :: "string \<Rightarrow> (nat \<times> string) option" where
  \<comment> \<open>the number of parameters of the getter and the attribute it returns\<close>
  "Result_property name =
     (if name = ''values'' then Some (1, ''_values'')
      else if name = ''stderr'' then Some (1, ''_stderr'')
      else if name = ''residual'' then Some (2, ''_residual'')
      else if name = ''fits'' then Some (2, ''_fits'')
      else None)"

definition getattr :: "'c result \<Rightarrow> string \<Rightarrow> error + 'c attr" where
  "getattr r name =
     (case map_of (in_dict r) name of
        Some v \<Rightarrow> Inr v
      | None \<Rightarrow>
          (case Result_property name of
             None \<Rightarrow> Inl AttributeError
           | Some (n, field) \<Rightarrow>
               if n = 1
               then (case map_of (in_dict r) field of
                       Some v \<Rightarrow> Inr v
                     | None \<Rightarrow> Inl AttributeError)
               else Inl TypeError))"

definition setattr :: "'c result \<Rightarrow> string \<Rightarrow> 'c attr \<Rightarrow> 'c result" where
  "setattr r name v = r\<lparr>in_dict := AList.update name v (in_dict r)\<rparr>"

section \<open>NLS\<close>

text \<open>
  The result of \<open>lmfit.minimize\<close> as far as \<open>NLS\<close> reads it, with the flag by which
  lmfit reports that the fit did not converge.  The solver itself is outside this module:
  it is an argument of the model, a function of the starting parameters and of the
  objective with the extra arguments \<open>args\<close> bound, which is the only use lmfit makes of
  \<open>args\<close>.  It reports a fit that does not converge through \<open>success\<close>; an update of the
  starting \<open>Parameters\<close> object in place is not modelled.
\<close>

record minimizer =
  params :: parameters
  residual :: "float list"
  success :: bool

type_synonym solver = "(parameters \<Rightarrow> float list) \<Rightarrow> parameters \<Rightarrow> minimizer"

text \<open>\<open>params\<close> is a \<open>Parameters\<close> object or a function from a column to one.\<close>

datatype pspec = Fixed parameters | Callable "series \<Rightarrow> parameters"

text \<open>
  The calls that leave the module, in the order they are made: to the caller's
  parameter function, to the solver (with the starting parameters and \<open>args\<close>), to
  \<open>print\<close> and to \<open>plots.fit\<close> (with the table of fitted curves; the import of
  \<open>plots\<close> is taken to succeed).  The model function and the parameter function are
  functions of their arguments and do not raise.
\<close>

datatype 'c call =
    is_Params_call: Params_call series
  | is_Minimize_call: Minimize_call parameters series series "series option"
  | Print_call float float
  | Plot_call "'c attr"

text \<open>The variables of \<open>NLS\<close> that its loop updates.\<close>

record 'c locals =
  l_values :: "(string, 'c) frame"
  l_stderr :: "(string, 'c) frame"
  l_residuals :: "('c \<times> series) list"
  l_fits :: "('c \<times> series) list"
  l_result :: "minimizer option"
  l_calls :: "'c call list"

definition check_weights :: "float list option \<Rightarrow> series \<Rightarrow> error + series option" where
  "check_weights weights x =
     (case weights of
        None \<Rightarrow> Inr None
      | Some w \<Rightarrow>
          if length w = length x
          then Inr (Some (zip (map fst x) w))
          else Inl (AssertionError
                 ''weights must be an array-like sequence the same length as data.''))"

definition sample_params ::
  "pspec \<Rightarrow> (real, 'c) frame \<Rightarrow> error + (parameters \<times> 'c call list)" where
  \<comment> \<open>\<open>p = params(ys.icol(0))\<close> or \<open>p = params\<close>\<close>
  "sample_params ps ys =
     (case ps of
        Fixed p \<Rightarrow> Inr (p, [])
      | Callable g \<Rightarrow>
          (case columns ys of
             [] \<Rightarrow> Inl IndexError
           | (c, cells) # _ \<Rightarrow>
               Inr (g (column_series (index ys) cells),
                    [Params_call (column_series (index ys) cells)])))"

definition minimize_args ::
  "bool \<Rightarrow> series \<Rightarrow> series \<Rightarrow> series option \<Rightarrow> series \<times> series \<times> series option" where
  \<comment> \<open>\<open>args=(x, y, weights)\<close>, or \<open>args=(y, x, weights)\<close> for an inverted model\<close>
  "minimize_args inverted_model x y weights =
     (if \<not> inverted_model then (x, y, weights) else (y, x, weights))"

definition params_apply :: "(param \<Rightarrow> float) \<Rightarrow> parameters \<Rightarrow> (string \<times> float) list" where
  \<comment> \<open>\<open>Series(result.params).apply(g)\<close>: a series labelled by the parameter names\<close>
  "params_apply g ps = map (\<lambda>(n, prm). (n, g prm)) ps"

definition NLS_body ::
  "model \<Rightarrow> pspec \<Rightarrow> series option \<Rightarrow> bool \<Rightarrow> bool \<Rightarrow> solver \<Rightarrow> series \<Rightarrow>
   'c \<Rightarrow> series \<Rightarrow> 'c locals \<Rightarrow> (error \<times> 'c call list) + 'c locals" where
  "NLS_body model_func ps weights log_residual inverted_model solver x col ycol st =
     (let y = dropna ycol;
          (p, calls1) = (case ps of
                           Callable g \<Rightarrow> (g y, [Params_call y])
                         | Fixed p0 \<Rightarrow> (p0, []));
          (a, b, w) = minimize_args inverted_model x y weights;
          result = solver (\<lambda>q. residual_func model_func log_residual q a b w) p;
          calls = l_calls st @ calls1 @ [Minimize_call p a b w];
          result_params = params result
      in case Series (residual result) (List.map_filter snd x) of
           Inl e \<Rightarrow> Inl (e, calls)
         | Inr rs \<Rightarrow>
             Inr (st\<lparr>l_values := set_column (l_values st) col
                          (reindex (index (l_values st))
                             (params_apply (\<lambda>param. param_value param) result_params)),
                      l_stderr := set_column (l_stderr st) col
                          (reindex (index (l_stderr st))
                             (params_apply (\<lambda>param. param_stderr param) result_params)),
                      l_residuals := AList.update col rs (l_residuals st),
                      l_fits := AList.update col
                          (if \<not> inverted_model
                           then series_apply (\<lambda>x. model_func x (params result)) x
                           else series_apply (\<lambda>y. model_func y (params result)) y)
                          (l_fits st),
                      l_result := Some result,
                      l_calls := calls\<rparr>))"

fun NLS_loop ::
  "model \<Rightarrow> pspec \<Rightarrow> series option \<Rightarrow> bool \<Rightarrow> bool \<Rightarrow> solver \<Rightarrow> series \<Rightarrow> real list \<Rightarrow>
   ('c \<times> float list) list \<Rightarrow> 'c locals \<Rightarrow> (error \<times> 'c call list) + 'c locals" where
  "NLS_loop model_func ps weights log_residual inverted_model solver x idx [] st = Inr st"
| "NLS_loop model_func ps weights log_residual inverted_model solver x idx ((col, cells) # rest) st =
     (case NLS_body model_func ps weights log_residual inverted_model solver x col
             (column_series idx cells) st of
        Inl e \<Rightarrow> Inl e
      | Inr st' \<Rightarrow> NLS_loop model_func ps weights log_residual inverted_model solver x idx rest st')"

definition NLS_finish ::
  "model \<Rightarrow> bool \<Rightarrow> 'c locals \<Rightarrow> 'c call list \<times> (error + 'c result)" where
  \<comment> \<open>the statements after the loop; \<open>result\<close> is unbound when the loop never ran, which
      only the call of \<open>pd.concat\<close> before it can meet\<close>
  "NLS_finish model_func plot st =
     (let r = \<lparr>in_dict = []\<rparr>;
          r = setattr r ''values'' (Frame (transpose_frame (l_values st)));
          r = setattr r ''stderr'' (Frame (transpose_frame (l_stderr st)))
      in case pd_concat (l_residuals st) of
           Inl e \<Rightarrow> (l_calls st, Inl e)
         | Inr res \<Rightarrow>
             (let r = setattr r ''residuals'' (Panel res)
              in case pd_concat (l_fits st) of
                   Inl e \<Rightarrow> (l_calls st, Inl e)
                 | Inr fts \<Rightarrow>
                     (let r = setattr r ''fits'' (Panel fts)
                      in case l_result st of
                           None \<Rightarrow> (l_calls st, Inl NameError)
                         | Some result \<Rightarrow>
                             (let r = setattr r ''model''
                                        (Closure (\<lambda>x. model_func x (params result)))
                              in if plot
                                 then (case getattr r ''fits'' of
                                         Inl e \<Rightarrow> (l_calls st, Inl e)
                                       | Inr a \<Rightarrow> (l_calls st @ [Plot_call a], Inr r))
                                 else (l_calls st, Inr r)))))"

definition NLS ::
  "(real, 'c) frame \<Rightarrow> model \<Rightarrow> pspec \<Rightarrow> float list option \<Rightarrow> bool \<Rightarrow> bool \<Rightarrow> bool \<Rightarrow> solver \<Rightarrow>
   'c call list \<times> (error + 'c result)" where
  "NLS data model_func ps weights log_residual inverted_model plot solver =
     (let ys = data;
          x = x_axis data
      in case check_weights weights x of
           Inl e \<Rightarrow> ([], Inl e)
         | Inr weights \<Rightarrow>
             (case sample_params ps ys of
                Inl e \<Rightarrow> ([], Inl e)
              | Inr (p, calls) \<Rightarrow>
                  (case NLS_loop model_func ps weights log_residual inverted_model solver x
                          (index ys) (columns ys)
                          \<lparr>l_values = \<lparr>index = map fst p, columns = []\<rparr>,
                           l_stderr = \<lparr>index = map fst p, columns = []\<rparr>,
                           l_residuals = [], l_fits = [], l_result = None,
                           l_calls = calls\<rparr> of
                     Inl (e, calls) \<Rightarrow> (calls, Inl e)
                   | Inr st \<Rightarrow> NLS_finish model_func plot st)))"

section \<open>fit_powerlaw\<close>

definition fadd :: "float \<Rightarrow> float \<Rightarrow> float" where
  "fadd a b = (case a of None \<Rightarrow> None | Some u \<Rightarrow> (case b of None \<Rightarrow> None | Some v \<Rightarrow> Some (u + v)))"

definition fpow :: "float \<Rightarrow> float \<Rightarrow> float" where
  \<comment> \<open>\<open>x**slope\<close> for floats.  In \<open>fit_powerlaw\<close> a base that is not positive only
      meets a NaN exponent, because the logarithm of that base went into the regression.\<close>
  "fpow a b = (case a of None \<Rightarrow> None | Some u \<Rightarrow>
     (case b of None \<Rightarrow> None | Some v \<Rightarrow> if 0 < u then Some (u powr v) else None))"

definition np_mean :: "float list \<Rightarrow> float" where
  \<comment> \<open>\<open>np.mean\<close> of an array: nulls are not skipped\<close>
  "np_mean xs = fdiv (foldr fadd xs (Some 0)) (Some (real (length xs)))"

text \<open>
  \<open>scipy.stats.linregress(x, y)\<close>, the two results of it that \<open>fit_powerlaw\<close> uses:
  the slope is the covariance of the two arrays over the variance of the first
  (\<open>np.cov(x, y, bias=1)\<close>, which raises when the arrays differ in length), the
  intercept is \<open>ymean - slope*xmean\<close>.
\<close>

definition least_squares :: "float list \<Rightarrow> float list \<Rightarrow> float \<times> float" where
  \<comment> \<open>slope and intercept of the regression line of \<open>y\<close> on \<open>x\<close>\<close>
  "least_squares x y =
     (let xmean = np_mean x;
          ymean = np_mean y;
          ssxm = np_mean (map (\<lambda>a. fmul (fsub a xmean) (fsub a xmean)) x);
          ssxym = np_mean (map (\<lambda>(a, b). fmul (fsub a xmean) (fsub b ymean)) (zip x y));
          slope = fdiv ssxym ssxm;
          intercept = fsub ymean (fmul slope xmean)
      in (slope, intercept))"

definition linregress :: "float list \<Rightarrow> float list \<Rightarrow> error + (float \<times> float)" where
  "linregress x y =
     (if length x \<noteq> length y then Inl ValueError else Inr (least_squares x y))"

text \<open>
  The loop of \<open>fit_powerlaw\<close> over the columns, with the variables it updates: the frame
  \<open>values\<close>, the dictionary \<open>fits\<close> and the calls made so far.
\<close>

fun powerlaw_loop ::
  "series \<Rightarrow> real list \<Rightarrow> ('c \<times> float list) list \<Rightarrow>
   (string, 'c) frame \<times> ('c \<times> series) list \<times> 'c call list \<Rightarrow>
   (error \<times> 'c call list) + ((string, 'c) frame \<times> ('c \<times> series) list \<times> 'c call list)" where
  "powerlaw_loop x idx [] st = Inr st"
| "powerlaw_loop x idx ((col, cells) # rest) (vals, fits, calls) =
     (let y = dropna (column_series idx cells)
      in case linregress (map snd (series_apply np_log x)) (map snd (series_apply np_log y)) of
           Inl e \<Rightarrow> Inl (e, calls)
         | Inr (slope, intercept) \<Rightarrow>
             powerlaw_loop x idx rest
               (set_column vals col [slope, np_exp intercept],
                AList.update col
                  (series_apply (\<lambda>x. fmul (np_exp intercept) (fpow x slope)) x) fits,
                calls @ [Print_call slope intercept]))"

definition fit_powerlaw ::
  "(real, 'c) frame \<Rightarrow> bool \<Rightarrow> 'c call list \<times> (error + ('c, string) frame)" where
  "fit_powerlaw data plot =
     (let ys = data;
          x = x_axis data
      in case powerlaw_loop x (index ys) (columns ys)
                (\<lparr>index = [''n'', ''A''], columns = []\<rparr>, [], []) of
           Inl (e, calls) \<Rightarrow> (calls, Inl e)
         | Inr (vals, fits, calls) \<Rightarrow>
             (let vals = transpose_frame vals
              in case pd_concat fits of
                   Inl e \<Rightarrow> (calls, Inl e)
                 | Inr fits \<Rightarrow>
                     (if plot then calls @ [Plot_call (Panel fits)] else calls, Inr vals)))"

section \<open>Notions for the statements\<close>

text \<open>
  For one column \<open>y\<close> of the loop of \<open>NLS\<close>: the parameters the loop uses for it, the
  result the solver returns for it, and the calls the loop makes for it.
\<close>

definition column_params :: "pspec \<Rightarrow> series \<Rightarrow> parameters" where
  "column_params ps y = (case ps of Callable g \<Rightarrow> g y | Fixed p \<Rightarrow> p)"

definition column_fit ::
  "model \<Rightarrow> pspec \<Rightarrow> series option \<Rightarrow> bool \<Rightarrow> bool \<Rightarrow> solver \<Rightarrow> series \<Rightarrow> series \<Rightarrow> minimizer" where
  "column_fit model_func ps weights log_residual inverted_model solver x y =
     (case minimize_args inverted_model x y weights of
        (a, b, w) \<Rightarrow> solver (\<lambda>q. residual_func model_func log_residual q a b w) (column_params ps y))"

definition column_calls :: "pspec \<Rightarrow> series option \<Rightarrow> bool \<Rightarrow> series \<Rightarrow> series \<Rightarrow> 'c call list" where
  "column_calls ps weights inverted_model x y =
     (case minimize_args inverted_model x y weights of
        (a, b, w) \<Rightarrow> (case ps of Callable g \<Rightarrow> [Params_call y] | Fixed p \<Rightarrow> [])
                       @ [Minimize_call (column_params ps y) a b w])"

text \<open>
  The residual of one row and the mean that \<open>fillna\<close> puts where there is none; the
  regression line of a column of \<open>fit_powerlaw\<close>, and a column without missing value.
\<close>

definition row_residual :: "model \<Rightarrow> bool \<Rightarrow> parameters \<Rightarrow> real \<Rightarrow> float \<Rightarrow> float" where
  \<comment> \<open>observed minus predicted at the row of label \<open>i\<close> whose cell is \<open>c\<close>, in log space
      when \<open>lg\<close> is set; null when the cell is missing or the difference is not finite\<close>
  "row_residual M lg p i c =
     (if lg then fsub (np_log c) (np_log (M (Some i) p)) else fsub c (M (Some i) p))"

definition mean_finite :: "float list \<Rightarrow> float" where
  \<comment> \<open>the mean of the values that are not null, NaN when there is none\<close>
  "mean_finite ds = (let vs = List.map_filter id ds
                     in if vs = [] then None else Some (sum_list vs / real (length vs)))"

definition loglog_fit :: "real list \<Rightarrow> float list \<Rightarrow> float \<times> float" where
  \<comment> \<open>slope and intercept of the regression of \<open>log y\<close> on \<open>log x\<close>, for the x labels and
      the cells of a column\<close>
  "loglog_fit idx cells = least_squares (map (\<lambda>i. np_log (Some i)) idx) (map np_log cells)"

definition full_column :: "real list \<Rightarrow> float list \<Rightarrow> bool" where
  \<comment> \<open>one cell per row, none of them missing\<close>
  "full_column idx cells = (length cells = length idx \<and> list_all (\<lambda>v. v \<noteq> None) cells)"

definition sum_squares :: "float list \<Rightarrow> real" where
  \<comment> \<open>what a least-squares solver minimises: the sum of the squares of the residual\<close>
  "sum_squares r = sum_list (map (\<lambda>v. case v of None \<Rightarrow> 0 | Some u \<Rightarrow> u * u) r)"

section \<open>Inputs for the examples\<close>

text \<open>
  A solver that makes no step: it evaluates the objective once at the starting
  parameters and returns them, with the flag it is given.
\<close>

definition probe_solver :: "bool \<Rightarrow> solver" where
  "probe_solver ok fcn p = \<lparr>params = p, residual = fcn p, success = ok\<rparr>"

definition line_model :: model where
  \<comment> \<open>the line through the origin with slope \<open>k\<close>, used with parameter sets that have
      a \<open>k\<close> only:
      \<open>lambda x, params: params['k'].value * x if 'k' in params else np.nan\<close>\<close>
  "line_model x p = (case map_of p ''k'' of None \<Rightarrow> None | Some prm \<Rightarrow> fmul (param_value prm) x)"

definition slope_params :: "real \<Rightarrow> parameters" where
  "slope_params k = [(''k'', \<lparr>param_value = Some k, param_stderr = None\<rparr>)]"

definition unit_params :: parameters where
  "unit_params = [(''k'', \<lparr>param_value = Some 1, param_stderr = None\<rparr>)]"

definition count_params :: "series \<Rightarrow> parameters" where
  \<comment> \<open>a parameter function: the starting value is taken from the column it is given\<close>
  "count_params y = [(''k'', \<lparr>param_value = Some (real (length y)), param_stderr = None\<rparr>)]"

definition gap_table :: "(real, string) frame" where
  \<comment> \<open>column a has no value at x = 2\<close>
  "gap_table = \<lparr>index = [1, 2, 3],
                 columns = [(''a'', [Some 2, None, Some 6]), (''b'', [Some 1, Some 2, Some 3])]\<rparr>"

definition void_table :: "(real, string) frame" where
  \<comment> \<open>the only column has no value at all\<close>
  "void_table = \<lparr>index = [1, 2], columns = [(''a'', [None, None])]\<rparr>"

definition power_table :: "(real, string) frame" where
  \<comment> \<open>\<open>y = e * x\<close> at \<open>x = 1\<close> and \<open>x = e\<close>\<close>
  "power_table = \<lparr>index = [1, exp 1], columns = [(''a'', [Some (exp 1), Some (exp 2)])]\<rparr>"

definition neg_table :: "(real, string) frame" where
  \<comment> \<open>the first value of the column is below zero\<close>
  "neg_table = \<lparr>index = [1, exp 1], columns = [(''a'', [Some (- 1), Some 1])]\<rparr>"

section \<open>The loop, column by column\<close>

lemma update_fresh: "map fst al = ks \<Longrightarrow> k \<notin> set ks \<Longrightarrow> AList.update k v al = al @ [(k, v)]"
  by (induction al arbitrary: ks) auto

lemma NLS_body_Inr:
  assumes "NLS_body M ps w lg iv solver x col ycol st = Inr st'"
  shows "st' = st\<lparr>l_values := set_column (l_values st) col
                          (reindex (index (l_values st))
                             (params_apply param_value (params (column_fit M ps w lg iv solver x (dropna ycol))))),
                      l_stderr := set_column (l_stderr st) col
                          (reindex (index (l_stderr st))
                             (params_apply param_stderr (params (column_fit M ps w lg iv solver x (dropna ycol))))),
                      l_residuals := AList.update col (zip (List.map_filter snd x) (residual (column_fit M ps w lg iv solver x (dropna ycol)))) (l_residuals st),
                      l_fits := AList.update col
                          (series_apply (\<lambda>v. M v (params (column_fit M ps w lg iv solver x (dropna ycol)))) (if iv then dropna ycol else x))
                          (l_fits st),
                      l_result := Some (column_fit M ps w lg iv solver x (dropna ycol)),
                      l_calls := l_calls st @ column_calls ps w iv x (dropna ycol)\<rparr>"
    and "length (residual (column_fit M ps w lg iv solver x (dropna ycol))) = length (List.map_filter snd x)"
  using assms
  by (auto simp: NLS_body_def column_fit_def column_calls_def column_params_def Let_def Series_def minimize_args_def
      split: prod.splits if_splits pspec.splits)

lemma NLS_body_Inl:
  assumes "NLS_body M ps w lg iv solver x col ycol st = Inl (e, calls)"
  shows "e = ValueError" "calls = l_calls st @ column_calls ps w iv x (dropna ycol)"
    "length (residual (column_fit M ps w lg iv solver x (dropna ycol))) \<noteq> length (List.map_filter snd x)"
  using assms
  by (auto simp: NLS_body_def column_fit_def column_calls_def column_params_def Let_def Series_def minimize_args_def
      split: prod.splits if_splits pspec.splits)

lemma NLS_loop_Inr:
  assumes "NLS_loop M ps w lg iv solver x idx cols st = Inr st'"
    and "distinct (ks @ map fst cols)"
    and "map fst (columns (l_values st)) = ks" "map fst (columns (l_stderr st)) = ks"
    and "map fst (l_residuals st) = ks" "map fst (l_fits st) = ks"
  shows "index (l_values st') = index (l_values st) \<and> index (l_stderr st') = index (l_stderr st) \<and>
    columns (l_values st') = columns (l_values st) @
       map (\<lambda>(c, cells). (c, reindex (index (l_values st))
              (params_apply param_value
                 (params (column_fit M ps w lg iv solver x (dropna (column_series idx cells))))))) cols \<and>
    columns (l_stderr st') = columns (l_stderr st) @
       map (\<lambda>(c, cells). (c, reindex (index (l_stderr st))
              (params_apply param_stderr
                 (params (column_fit M ps w lg iv solver x (dropna (column_series idx cells))))))) cols \<and>
    l_residuals st' = l_residuals st @
       map (\<lambda>(c, cells). (c, zip (List.map_filter snd x)
              (residual (column_fit M ps w lg iv solver x (dropna (column_series idx cells)))))) cols \<and>
    l_fits st' = l_fits st @
       map (\<lambda>(c, cells). (c, series_apply
              (\<lambda>v. M v (params (column_fit M ps w lg iv solver x (dropna (column_series idx cells)))))
              (if iv then dropna (column_series idx cells) else x))) cols \<and>
    l_calls st' = l_calls st @
       concat (map (\<lambda>(c, cells). column_calls ps w iv x (dropna (column_series idx cells))) cols) \<and>
    l_result st' = (if cols = [] then l_result st
       else Some (column_fit M ps w lg iv solver x (dropna (column_series idx (snd (last cols)))))) \<and>
    list_all (\<lambda>(c, cells). length (residual (column_fit M ps w lg iv solver x
       (dropna (column_series idx cells)))) = length (List.map_filter snd x)) cols"
  using assms
proof (induction cols arbitrary: st ks)
  case Nil
  then show ?case by simp
next
  case (Cons a cols)
  obtain col cells where a: "a = (col, cells)" by (cases a)
  from Cons.prems(1) a obtain st1 where
    b: "NLS_body M ps w lg iv solver x col (column_series idx cells) st = Inr st1"
    and l: "NLS_loop M ps w lg iv solver x idx cols st1 = Inr st'"
    by (auto split: sum.splits)
  note st1 = NLS_body_Inr[OF b]
  have fresh: "col \<notin> set ks" using Cons.prems(2) a by auto
  have d: "distinct ((ks @ [col]) @ map fst cols)" using Cons.prems(2) a by auto
  have k1: "map fst (columns (l_values st1)) = ks @ [col]"
    by (subst st1(1)) (simp add: set_column_def update_fresh[OF Cons.prems(3) fresh] Cons.prems(3))
  have k2: "map fst (columns (l_stderr st1)) = ks @ [col]"
    by (subst st1(1)) (simp add: set_column_def update_fresh[OF Cons.prems(4) fresh] Cons.prems(4))
  have k3: "map fst (l_residuals st1) = ks @ [col]"
    by (subst st1(1)) (simp add: update_fresh[OF Cons.prems(5) fresh] Cons.prems(5))
  have k4: "map fst (l_fits st1) = ks @ [col]"
    by (subst st1(1)) (simp add: update_fresh[OF Cons.prems(6) fresh] Cons.prems(6))
  note ih = Cons.IH[OF l d k1 k2 k3 k4]
  have v1: "columns (l_values st1) = columns (l_values st) @ [(col, reindex (index (l_values st))
              (params_apply param_value
                 (params (column_fit M ps w lg iv solver x (dropna (column_series idx cells))))))]"
    by (subst st1(1)) (simp add: set_column_def update_fresh[OF Cons.prems(3) fresh] Cons.prems(3))
  have v2: "columns (l_stderr st1) = columns (l_stderr st) @ [(col, reindex (index (l_stderr st))
              (params_apply param_stderr
                 (params (column_fit M ps w lg iv solver x (dropna (column_series idx cells))))))]"
    by (subst st1(1)) (simp add: set_column_def update_fresh[OF Cons.prems(4) fresh] Cons.prems(4))
  have v3: "l_residuals st1 = l_residuals st @ [(col, zip (List.map_filter snd x)
              (residual (column_fit M ps w lg iv solver x (dropna (column_series idx cells)))))]"
    by (subst st1(1)) (simp add: update_fresh[OF Cons.prems(5) fresh] Cons.prems(5))
  have v4: "l_fits st1 = l_fits st @ [(col, series_apply
              (\<lambda>v. M v (params (column_fit M ps w lg iv solver x (dropna (column_series idx cells)))))
              (if iv then dropna (column_series idx cells) else x))]"
    by (subst st1(1)) (simp add: update_fresh[OF Cons.prems(6) fresh] Cons.prems(6))
  have i1: "index (l_values st1) = index (l_values st)" "index (l_stderr st1) = index (l_stderr st)"
    by (subst st1(1), simp add: set_column_def)+
  have c1: "l_calls st1 = l_calls st @ column_calls ps w iv x (dropna (column_series idx cells))"
    by (subst st1(1)) simp
  have r1: "l_result st1 = Some (column_fit M ps w lg iv solver x (dropna (column_series idx cells)))"
    by (subst st1(1)) simp
  show ?case
    using ih st1(2) by (simp add: a v1 v2 v3 v4 i1 c1 r1)
qed


lemma NLS_finish_Inr:
  assumes "NLS_finish M pl st = (calls, Inr r)"
  shows "\<exists>res. l_result st = Some res \<and>
     in_dict r = [(''values'', Frame (transpose_frame (l_values st))),
                  (''stderr'', Frame (transpose_frame (l_stderr st))),
                  (''residuals'', Panel (l_residuals st)),
                  (''fits'', Panel (l_fits st)),
                  (''model'', Closure (\<lambda>x. M x (params res)))]"
    and "calls = l_calls st @ (if pl then [Plot_call (Panel (l_fits st))] else [])"
    and "l_residuals st \<noteq> []" "l_fits st \<noteq> []"
  using assms
  by (auto simp: NLS_finish_def Let_def setattr_def pd_concat_def getattr_def
      split: list.splits option.splits if_splits sum.splits)

lemma NLS_Inr:
  assumes "NLS T M ps ws lg iv pl solver = (calls, Inr r)"
  obtains w p0 calls0 st where
    "check_weights ws (x_axis T) = Inr w"
    "sample_params ps T = Inr (p0, calls0)"
    "NLS_loop M ps w lg iv solver (x_axis T) (index T) (columns T)
        \<lparr>l_values = \<lparr>index = map fst p0, columns = []\<rparr>,
         l_stderr = \<lparr>index = map fst p0, columns = []\<rparr>,
         l_residuals = [], l_fits = [], l_result = None, l_calls = calls0\<rparr> = Inr st"
    "NLS_finish M pl st = (calls, Inr r)"
  using assms
  by (auto simp: NLS_def Let_def split: sum.splits prod.splits)

lemma x_axis_values: "List.map_filter snd (x_axis T) = index T"
  by (simp add: x_axis_def List.map_filter_def comp_def)


lemmas eval_defs = residual_func_def series_apply_def series_binop_def union_index_def lookup_def
  fsub_def fmul_def mean_def fillna_def List.map_filter_simps np_log_def
  NLS_def x_axis_def check_weights_def sample_params_def NLS_body_def column_series_def dropna_def
  minimize_args_def params_apply_def
  probe_solver_def line_model_def unit_params_def gap_table_def
  Series_def set_column_def reindex_def NLS_finish_def setattr_def pd_concat_def transpose_frame_def
  getattr_def Result_property_def enumerate_eq_zip Let_def

lemma transpose_labels:
  "index (transpose_frame F) = map fst (columns F)" "map fst (columns (transpose_frame F)) = index F"
  by (simp_all add: transpose_frame_def comp_def case_prod_unfold)

lemma gap_fit:
  "\<exists>calls r. NLS gap_table line_model (Fixed unit_params) None False False False (probe_solver True)
      = (calls, Inr r)"
  by (simp add: eval_defs)

section \<open>The claims\<close>

text \<open>
  C2.  For every table \<open>T\<close> with distinct column labels and every parameter set \<open>P\<close>, a
  call of \<open>NLS\<close> that returns gives a \<open>values\<close> table and a \<open>stderr\<close> table whose row
  labels are the column labels of \<open>T\<close> and whose column labels are the parameter names
  of \<open>P\<close>.
\<close>

theorem NLS_table_labels:
  assumes "NLS T M (Fixed P) ws lg iv pl solver = (calls, Inr r)"
    and "distinct (map fst (columns T))"
  shows "\<exists>V S. getattr r ''values'' = Inr (Frame V) \<and> getattr r ''stderr'' = Inr (Frame S) \<and>
           index V = map fst (columns T) \<and> map fst (columns V) = map fst P \<and>
           index S = map fst (columns T) \<and> map fst (columns S) = map fst P"
proof -
  from assms(1) obtain w p0 calls0 st where
    sp: "sample_params (Fixed P) T = Inr (p0, calls0)"
    and loop: "NLS_loop M (Fixed P) w lg iv solver (x_axis T) (index T) (columns T)
        \<lparr>l_values = \<lparr>index = map fst p0, columns = []\<rparr>,
         l_stderr = \<lparr>index = map fst p0, columns = []\<rparr>,
         l_residuals = [], l_fits = [], l_result = None, l_calls = calls0\<rparr> = Inr st"
    and fin: "NLS_finish M pl st = (calls, Inr r)"
    by (rule NLS_Inr)
  from sp have p0: "p0 = P" by (simp add: sample_params_def)
  have d: "distinct ([] @ map fst (columns T))" using assms(2) by simp
  from NLS_loop_Inr[OF loop d] p0
  have v: "index (l_values st) = map fst P" "map fst (columns (l_values st)) = map fst (columns T)"
    and s: "index (l_stderr st) = map fst P" "map fst (columns (l_stderr st)) = map fst (columns T)"
    by (simp_all add: comp_def case_prod_unfold)
  from NLS_finish_Inr(1)[OF fin]
  have "getattr r ''values'' = Inr (Frame (transpose_frame (l_values st)))"
    and "getattr r ''stderr'' = Inr (Frame (transpose_frame (l_stderr st)))"
    by (auto simp: getattr_def)
  then show ?thesis using v s by (simp add: transpose_labels)
qed

theorem NLS_table_labels_witness:
  "\<exists>calls r V S.
      NLS gap_table line_model (Fixed unit_params) None False False False (probe_solver True)
        = (calls, Inr r) \<and>
      getattr r ''values'' = Inr (Frame V) \<and> getattr r ''stderr'' = Inr (Frame S) \<and>
      index V = [''a'', ''b''] \<and> map fst (columns V) = [''k''] \<and>
      index S = [''a'', ''b''] \<and> map fst (columns S) = [''k'']"
proof -
  from gap_fit obtain calls r where
    e: "NLS gap_table line_model (Fixed unit_params) None False False False (probe_solver True)
          = (calls, Inr r)" by blast
  have d: "distinct (map fst (columns gap_table))" by (simp add: gap_table_def)
  from NLS_table_labels[OF e d] e show ?thesis
    by (simp add: gap_table_def unit_params_def)
qed

lemma NLS_loop_calls:
  "\<exists>tl. (case NLS_loop M ps w lg iv solver x idx cols st of
            Inl (e, calls) \<Rightarrow> calls | Inr st' \<Rightarrow> l_calls st') = l_calls st @ tl"
proof (induction cols arbitrary: st)
  case Nil
  then show ?case by simp
next
  case (Cons a cols)
  obtain col cells where a: "a = (col, cells)" by (cases a)
  show ?case
  proof (cases "NLS_body M ps w lg iv solver x col (column_series idx cells) st")
    case (Inl ec)
    obtain e calls where ec: "ec = (e, calls)" by (cases ec)
    from NLS_body_Inl(2)[OF Inl[unfolded ec]] Inl a ec show ?thesis by simp
  next
    case (Inr st1)
    from Cons.IH[of st1] obtain tl where
      "(case NLS_loop M ps w lg iv solver x idx cols st1 of
            Inl (e, calls) \<Rightarrow> calls | Inr st' \<Rightarrow> l_calls st') = l_calls st1 @ tl" by blast
    moreover have "l_calls st1 = l_calls st @ column_calls ps w iv x (dropna (column_series idx cells))"
      by (subst NLS_body_Inr(1)[OF Inr]) simp
    ultimately show ?thesis using Inr a by simp
  qed
qed

lemma NLS_finish_calls: "\<exists>tl. fst (NLS_finish M pl st) = l_calls st @ tl"
  by (auto simp: NLS_finish_def Let_def split: sum.splits option.splits)

lemma NLS_calls_first:
  assumes cols: "columns T = (c0, cells0) # rest"
    and cw: "check_weights ws (x_axis T) = Inr w"
    and sp: "sample_params ps T = Inr (p0, calls0)"
  shows "\<exists>tl. fst (NLS T M ps ws lg iv pl solver) =
           calls0 @ column_calls ps w iv (x_axis T) (dropna (column_series (index T) cells0)) @ tl"
proof -
  let ?st0 = "\<lparr>l_values = \<lparr>index = map fst p0, columns = []\<rparr>,
         l_stderr = \<lparr>index = map fst p0, columns = []\<rparr>,
         l_residuals = [], l_fits = [], l_result = None, l_calls = calls0\<rparr> :: 'a locals"
  let ?y0 = "dropna (column_series (index T) cells0)"
  show ?thesis
  proof (cases "NLS_body M ps w lg iv solver (x_axis T) c0 (column_series (index T) cells0) ?st0")
    case (Inl ec)
    obtain e calls where ec: "ec = (e, calls)" by (cases ec)
    from NLS_body_Inl(2)[OF Inl[unfolded ec]] Inl ec show ?thesis
      by (simp add: NLS_def cols cw sp)
  next
    case (Inr st1)
    have c1: "l_calls st1 = calls0 @ column_calls ps w iv (x_axis T) ?y0"
      by (subst NLS_body_Inr(1)[OF Inr]) simp
    from NLS_loop_calls[of M ps w lg iv solver "x_axis T" "index T" rest st1] obtain tl where
      tl: "(case NLS_loop M ps w lg iv solver (x_axis T) (index T) rest st1 of
            Inl (e, calls) \<Rightarrow> calls | Inr st' \<Rightarrow> l_calls st') = l_calls st1 @ tl" by blast
    show ?thesis
    proof (cases "NLS_loop M ps w lg iv solver (x_axis T) (index T) rest st1")
      case (Inl ec)
      obtain e calls where ec: "ec = (e, calls)" by (cases ec)
      from tl Inl ec have "calls = l_calls st1 @ tl" by simp
      with Inl ec Inr c1 show ?thesis by (simp add: NLS_def cols cw sp)
    next
      case (Inr st2)
      from tl Inr have "l_calls st2 = l_calls st1 @ tl" by simp
      moreover from NLS_finish_calls[of M pl st2] obtain tl2 where
        "fst (NLS_finish M pl st2) = l_calls st2 @ tl2" by blast
      ultimately show ?thesis
        using Inr \<open>NLS_body M ps w lg iv solver (x_axis T) c0 (column_series (index T) cells0) ?st0 = Inr st1\<close> c1
        by (simp add: NLS_def cols cw sp)
    qed
  qed
qed

text \<open>
  C3.  After a call of \<open>NLS\<close> that returns, reading the accessor \<open>residual\<close> of the
  result raises a \<open>TypeError\<close>, and nothing was stored for it; the two concatenated
  tables are the plain attributes \<open>residuals\<close> and \<open>fits\<close>.
\<close>

theorem Result_residual_accessor:
  assumes "NLS T M ps ws lg iv pl solver = (calls, Inr r)"
  shows "getattr r ''residual'' = Inl TypeError \<and>
         getattr r ''_residual'' = Inl AttributeError \<and>
         (\<exists>res. getattr r ''residuals'' = Inr (Panel res)) \<and>
         (\<exists>fts. getattr r ''fits'' = Inr (Panel fts))"
proof -
  from assms obtain st where fin: "NLS_finish M pl st = (calls, Inr r)"
    by (rule NLS_Inr)
  from NLS_finish_Inr(1)[OF fin] show ?thesis
    by (auto simp: getattr_def Result_property_def)
qed

theorem Result_residual_accessor_witness:
  "\<exists>calls r.
      NLS gap_table line_model (Fixed unit_params) None False False False (probe_solver True)
        = (calls, Inr r) \<and>
      getattr r ''residual'' = Inl TypeError \<and>
      getattr r ''_residual'' = Inl AttributeError \<and>
      (\<exists>res. getattr r ''residuals'' = Inr (Panel res)) \<and>
      (\<exists>fts. getattr r ''fits'' = Inr (Panel fts))"
proof -
  from gap_fit obtain calls r where
    e: "NLS gap_table line_model (Fixed unit_params) None False False False (probe_solver True)
          = (calls, Inr r)" by blast
  from Result_residual_accessor[OF e] e show ?thesis by blast
qed

lemma NLS_body_success:
  "NLS_body M ps w lg iv (\<lambda>f p. (solver f p)\<lparr>success := b\<rparr>) x col ycol
      (st\<lparr>l_result := map_option (\<lambda>m. m\<lparr>success := b\<rparr>) (l_result st)\<rparr>) =
   map_sum id (\<lambda>s. s\<lparr>l_result := map_option (\<lambda>m. m\<lparr>success := b\<rparr>) (l_result s)\<rparr>)
      (NLS_body M ps w lg iv solver x col ycol st)"
  by (simp add: NLS_body_def Let_def split: prod.splits sum.splits pspec.splits)

lemma NLS_loop_success:
  "NLS_loop M ps w lg iv (\<lambda>f p. (solver f p)\<lparr>success := b\<rparr>) x idx cols
      (st\<lparr>l_result := map_option (\<lambda>m. m\<lparr>success := b\<rparr>) (l_result st)\<rparr>) =
   map_sum id (\<lambda>s. s\<lparr>l_result := map_option (\<lambda>m. m\<lparr>success := b\<rparr>) (l_result s)\<rparr>)
      (NLS_loop M ps w lg iv solver x idx cols st)"
proof (induction cols arbitrary: st)
  case Nil
  then show ?case by simp
next
  case (Cons a cols)
  obtain col cells where a: "a = (col, cells)" by (cases a)
  show ?case
    by (cases "NLS_body M ps w lg iv solver x col (column_series idx cells) st")
       (simp_all add: a NLS_body_success Cons.IH)
qed

lemma NLS_finish_success:
  "NLS_finish M pl (st\<lparr>l_result := map_option (\<lambda>m. m\<lparr>success := b\<rparr>) (l_result st)\<rparr>) =
   NLS_finish M pl st"
  by (simp add: NLS_finish_def Let_def split: sum.splits option.splits)

text \<open>
  C4.  \<open>NLS\<close> never reads the flag by which the solver reports that a fit did not
  converge: whatever the solver reports, every column is processed, and the calls made and
  the result returned are those of a solver that reports the opposite.  The result
  holds nothing that tells a column that failed from one that converged.
\<close>

theorem NLS_ignores_success:
  "NLS T M ps ws lg iv pl (\<lambda>f p. (solver f p)\<lparr>success := b\<rparr>) = NLS T M ps ws lg iv pl solver"
proof -
  have "NLS_loop M ps w lg iv (\<lambda>f p. (solver f p)\<lparr>success := b\<rparr>) x idx cols
          \<lparr>l_values = V, l_stderr = S, l_residuals = [], l_fits = [], l_result = None, l_calls = c\<rparr> =
        map_sum id (\<lambda>s. s\<lparr>l_result := map_option (\<lambda>m. m\<lparr>success := b\<rparr>) (l_result s)\<rparr>)
          (NLS_loop M ps w lg iv solver x idx cols
             \<lparr>l_values = V, l_stderr = S, l_residuals = [], l_fits = [], l_result = None, l_calls = c\<rparr>)"
    for w x idx cols V S and c :: "'a call list"
    using NLS_loop_success[where st =
        "\<lparr>l_values = V, l_stderr = S, l_residuals = [], l_fits = [], l_result = None, l_calls = c\<rparr>"]
    by simp
  then show ?thesis
    by (simp add: NLS_def Let_def NLS_finish_success split: sum.splits prod.splits)
qed

lemma params_calls_of_columns:
  "filter is_Params_call
     (concat (map (\<lambda>(c, cells). column_calls (Callable g) w iv x (dropna (column_series idx cells))) cols)) =
   map (\<lambda>(c, cells). Params_call (dropna (column_series idx cells))) cols"
  by (induction cols) (auto simp: column_calls_def minimize_args_def)

text \<open>
  C10.  When \<open>params\<close> is a function, \<open>NLS\<close> calls it before the loop on the first column
  as it stands in the table, missing values included; this is the first call it makes
  once the weights have passed their check.  The calls in the loop are on the columns
  with the missing values dropped, one per column, and when \<open>NLS\<close> returns, the column
  labels of \<open>values\<close> and of \<open>stderr\<close> are the names that first call returned.
\<close>

theorem NLS_callable_params:
  assumes cols: "columns T = (c0, cells0) # rest"
    and cw: "check_weights ws (x_axis T) = Inr w"
  shows "(\<exists>tl. fst (NLS T M (Callable g) ws lg iv pl solver) =
                 Params_call (column_series (index T) cells0) # tl) \<and>
         (\<forall>calls r. NLS T M (Callable g) ws lg iv pl solver = (calls, Inr r) \<and>
                    distinct (map fst (columns T)) \<longrightarrow>
            filter is_Params_call calls =
              Params_call (column_series (index T) cells0) #
              map (\<lambda>(c, cells). Params_call (dropna (column_series (index T) cells))) (columns T) \<and>
            (\<exists>V S. getattr r ''values'' = Inr (Frame V) \<and> getattr r ''stderr'' = Inr (Frame S) \<and>
                   map fst (columns V) = map fst (g (column_series (index T) cells0)) \<and>
                   map fst (columns S) = map fst (g (column_series (index T) cells0))))"
proof (intro conjI allI impI)
  have sp: "sample_params (Callable g) T =
      Inr (g (column_series (index T) cells0), [Params_call (column_series (index T) cells0)])"
    by (simp add: sample_params_def cols)
  from NLS_calls_first[OF cols cw sp, of M lg iv pl solver]
  show "\<exists>tl. fst (NLS T M (Callable g) ws lg iv pl solver) =
                 Params_call (column_series (index T) cells0) # tl"
    by auto
  fix calls r
  assume a: "NLS T M (Callable g) ws lg iv pl solver = (calls, Inr r) \<and> distinct (map fst (columns T))"
  then have e: "NLS T M (Callable g) ws lg iv pl solver = (calls, Inr r)" by simp
  from e obtain w' p0 calls0 st where
    cw': "check_weights ws (x_axis T) = Inr w'"
    and sp': "sample_params (Callable g) T = Inr (p0, calls0)"
    and loop: "NLS_loop M (Callable g) w' lg iv solver (x_axis T) (index T) (columns T)
        \<lparr>l_values = \<lparr>index = map fst p0, columns = []\<rparr>,
         l_stderr = \<lparr>index = map fst p0, columns = []\<rparr>,
         l_residuals = [], l_fits = [], l_result = None, l_calls = calls0\<rparr> = Inr st"
    and fin: "NLS_finish M pl st = (calls, Inr r)"
    by (rule NLS_Inr)
  from sp sp' have p0: "p0 = g (column_series (index T) cells0)"
    and c0: "calls0 = [Params_call (column_series (index T) cells0)]" by simp_all
  have d: "distinct ([] @ map fst (columns T))" using a by simp
  note L = NLS_loop_Inr[OF loop d]
  from L have lc: "l_calls st = calls0 @
       concat (map (\<lambda>(c, cells). column_calls (Callable g) w' iv (x_axis T)
                 (dropna (column_series (index T) cells))) (columns T))"
    by simp
  from NLS_finish_Inr(2)[OF fin]
  have "filter is_Params_call calls = filter is_Params_call (l_calls st)" by simp
  then show "filter is_Params_call calls =
              Params_call (column_series (index T) cells0) #
              map (\<lambda>(c, cells). Params_call (dropna (column_series (index T) cells))) (columns T)"
    by (simp add: lc c0 params_calls_of_columns)
  from L p0 have v: "index (l_values st) = map fst (g (column_series (index T) cells0))"
    and s: "index (l_stderr st) = map fst (g (column_series (index T) cells0))"
    by simp_all
  from NLS_finish_Inr(1)[OF fin]
  have "getattr r ''values'' = Inr (Frame (transpose_frame (l_values st)))"
    and "getattr r ''stderr'' = Inr (Frame (transpose_frame (l_stderr st)))"
    by (auto simp: getattr_def)
  then show "\<exists>V S. getattr r ''values'' = Inr (Frame V) \<and> getattr r ''stderr'' = Inr (Frame S) \<and>
                   map fst (columns V) = map fst (g (column_series (index T) cells0)) \<and>
                   map fst (columns S) = map fst (g (column_series (index T) cells0))"
    using v s by (simp add: transpose_labels)
qed

lemma gap_fit_callable:
  "\<exists>calls r. NLS gap_table line_model (Callable count_params) None False False False (probe_solver True)
      = (calls, Inr r)"
  by (simp add: eval_defs count_params_def)

theorem NLS_callable_params_witness:
  "\<exists>calls r tl V S.
     NLS gap_table line_model (Callable count_params) None False False False (probe_solver True)
       = (calls, Inr r) \<and>
     calls = Params_call [(1, Some 2), (2, None), (3, Some 6)] # tl \<and>
     filter is_Params_call calls =
       [Params_call [(1, Some 2), (2, None), (3, Some 6)],
        Params_call [(1, Some 2), (3, Some 6)],
        Params_call [(1, Some 1), (2, Some 2), (3, Some 3)]] \<and>
     getattr r ''values'' = Inr (Frame V) \<and> getattr r ''stderr'' = Inr (Frame S) \<and>
     map fst (columns V) = [''k''] \<and> map fst (columns S) = [''k'']"
proof -
  from gap_fit_callable obtain calls r where
    e: "NLS gap_table line_model (Callable count_params) None False False False (probe_solver True)
          = (calls, Inr r)" by blast
  have cols: "columns gap_table = (''a'', [Some 2, None, Some 6]) # [(''b'', [Some 1, Some 2, Some 3])]"
    by (simp add: gap_table_def)
  have cw: "check_weights None (x_axis gap_table) = Inr None" by (simp add: check_weights_def)
  have d: "distinct (map fst (columns gap_table))" by (simp add: gap_table_def)
  from NLS_callable_params[OF cols cw, of line_model count_params False False False "probe_solver True"] e d
  show ?thesis
    by (simp add: gap_table_def column_series_def dropna_def count_params_def)
qed

text \<open>
  C9, as the code has it.  The one check of \<open>NLS\<close> is the assertion on the weights: a
  weight sequence that has not one entry per row ends the call with the assertion's
  message, before any call to the parameter function or the solver.  A table with no
  column ends in an error too, and no call was made.  Nothing else is checked: for a
  table with a column, the solver is called for the first column whatever the parameter
  set and whatever the column holds.
\<close>

theorem NLS_input_checks:
  "(length w \<noteq> length (index T) \<longrightarrow>
      NLS T M ps (Some w) lg iv pl solver =
        ([], Inl (AssertionError
                    ''weights must be an array-like sequence the same length as data.''))) \<and>
   (columns T0 = [] \<longrightarrow> (\<exists>e. NLS T0 M ps ws lg iv pl solver = ([], Inl e))) \<and>
   (columns T1 = (c0, cells0) # rest \<and> check_weights ws1 (x_axis T1) = Inr w1 \<longrightarrow>
      (\<exists>tl. fst (NLS T1 M (Fixed P) ws1 lg False pl solver) =
         Minimize_call P (x_axis T1) (dropna (column_series (index T1) cells0)) w1 # tl))"
proof (intro conjI impI)
  assume "length w \<noteq> length (index T)"
  then show "NLS T M ps (Some w) lg iv pl solver =
        ([], Inl (AssertionError
                    ''weights must be an array-like sequence the same length as data.''))"
    by (simp add: NLS_def check_weights_def x_axis_def)
next
  assume "columns T0 = []"
  then show "\<exists>e. NLS T0 M ps ws lg iv pl solver = ([], Inl e)"
    by (cases ps; cases "check_weights ws (x_axis T0)")
       (simp_all add: NLS_def sample_params_def NLS_finish_def pd_concat_def setattr_def Let_def)
next
  assume a: "columns T1 = (c0, cells0) # rest \<and> check_weights ws1 (x_axis T1) = Inr w1"
  have sp: "sample_params (Fixed P) T1 = Inr (P, [])" by (simp add: sample_params_def)
  from NLS_calls_first[OF conjunct1[OF a] conjunct2[OF a] sp, of M lg False pl solver]
  show "\<exists>tl. fst (NLS T1 M (Fixed P) ws1 lg False pl solver) =
         Minimize_call P (x_axis T1) (dropna (column_series (index T1) cells0)) w1 # tl"
    by (simp add: column_calls_def minimize_args_def column_params_def)
qed

theorem NLS_input_checks_witness:
  "NLS gap_table line_model (Fixed unit_params) (Some [Some 1]) False False False (probe_solver True) =
     ([], Inl (AssertionError ''weights must be an array-like sequence the same length as data.'')) \<and>
   (\<exists>e. NLS \<lparr>index = [1, 2], columns = []\<rparr> line_model (Fixed unit_params) None False False False
           (probe_solver True) = ([] :: string call list, Inl e)) \<and>
   (\<exists>tl. fst (NLS gap_table line_model (Fixed unit_params) None False False False (probe_solver True)) =
      Minimize_call unit_params [(1, Some 1), (2, Some 2), (3, Some 3)] [(1, Some 2), (3, Some 6)] None # tl)"
proof -
  have cols: "columns gap_table = (''a'', [Some 2, None, Some 6]) # [(''b'', [Some 1, Some 2, Some 3])]"
    by (simp add: gap_table_def)
  have cw: "check_weights None (x_axis gap_table) = Inr None" by (simp add: check_weights_def)
  from NLS_input_checks[of "[Some 1]" gap_table line_model "Fixed unit_params" False False False
      "probe_solver True" "\<lparr>index = [1, 2], columns = []\<rparr> :: (real, string) frame" None gap_table
      "''a''" "[Some 2, None, Some 6]" "[(''b'', [Some 1, Some 2, Some 3])]" None None unit_params]
    cols cw
  show ?thesis
    by (simp add: gap_table_def x_axis_def column_series_def dropna_def)
qed

text \<open>
  C9 fails as stated: a column with no value at all is not rejected.  The solver is
  called with an empty \<open>y\<close>, and \<open>NLS\<close> returns a result.
\<close>

theorem NLS_unchecked_inputs:
  "\<exists>r. NLS void_table line_model (Fixed unit_params) None False False False (probe_solver True) =
      ([Minimize_call unit_params [(1, Some 1), (2, Some 2)] [] None], Inr r)"
  by (simp add: eval_defs void_table_def)

lemma sort_remdups_id:
  assumes "sorted (u::real list)" "distinct u" "set a \<subseteq> set u"
  shows "sort (remdups (a @ u)) = u" "sort (remdups (u @ a)) = u"
proof -
  show "sort (remdups (a @ u)) = u"
    by (rule sorted_distinct_set_unique) (use assms in auto)
  show "sort (remdups (u @ a)) = u"
    by (rule sorted_distinct_set_unique) (use assms in auto)
qed

lemma union_index_set: "set (union_index a b) = set a \<union> set b"
  by (auto simp: union_index_def)

lemma union_index_again:
  assumes "set b \<subseteq> set a \<or> set a \<subseteq> set b"
  shows "union_index (union_index a b) a = union_index a b"
    and "union_index (union_index a b) b = union_index a b"
    and "union_index (union_index b a) a = union_index b a"
proof -
  have s: "sorted (sort (remdups (a @ b)))" "distinct (sort (remdups (a @ b)))"
     "sorted (sort (remdups (b @ a)))" "distinct (sort (remdups (b @ a)))"
    by simp_all
  show "union_index (union_index a b) a = union_index a b"
    using sort_remdups_id(2)[OF s(1,2), of a] by (auto simp: union_index_def)
  show "union_index (union_index a b) b = union_index a b"
    using sort_remdups_id(2)[OF s(1,2), of b] by (auto simp: union_index_def)
  show "union_index (union_index b a) a = union_index b a"
    using sort_remdups_id(2)[OF s(3,4), of a] by (auto simp: union_index_def)
qed

lemma lookup_map: "i \<in> set u \<Longrightarrow> lookup (map (\<lambda>i. (i, h i)) u) i = h i"
  by (induction u) (auto simp: lookup_def)

lemma lookup_ones:
  "list_all (\<lambda>v. v = Some 1) (map snd w) \<Longrightarrow> i \<in> set (map fst w) \<Longrightarrow> lookup w i = Some 1"
  by (induction w) (auto simp: lookup_def)

lemma fillna_binop:
  "fillna m (series_binop f a b) =
   map (\<lambda>i. (i, case f (lookup a i) (lookup b i) of None \<Rightarrow> m | Some u \<Rightarrow> Some u))
     (union_index (map fst a) (map fst b))"
  by (simp add: fillna_def series_binop_def)

lemma weights_one:
  assumes ones: "list_all (\<lambda>v. v = Some 1) (map snd w)"
    and U: "union_index u (map fst w) = u" and sub: "set u \<subseteq> set (map fst w)"
  shows "map snd (series_binop fmul (map (\<lambda>i. (i, h i)) u) w) = map h u"
proof -
  have "fmul (lookup (map (\<lambda>i. (i, h i)) u) i) (lookup w i) = h i" if "i \<in> set u" for i
  proof -
    from that sub have "i \<in> set (map fst w)" by blast
    then have "lookup w i = Some 1" by (rule lookup_ones[OF ones])
    with that show ?thesis by (simp add: lookup_map fmul_def split: option.splits)
  qed
  then show ?thesis
    by (simp add: series_binop_def comp_def U)
qed

lemma series_apply_labels: "map fst (series_apply g s) = map fst s"
  by (simp add: series_apply_def comp_def case_prod_unfold)

text \<open>The residual before the weights, as a function of the aligned labels.\<close>

lemma residual_func_None:
  "residual_func M lg p x y None =
     (let f = series_apply (\<lambda>v. M v p) x;
          a = (if lg then series_apply np_log y else y);
          b = (if lg then series_apply np_log f else f);
          m = mean (series_binop fsub a b)
      in map (\<lambda>i. case fsub (lookup a i) (lookup b i) of None \<Rightarrow> m | Some u \<Rightarrow> Some u)
           (union_index (map fst y) (map fst x)))"
  by (simp add: residual_func_def Let_def fillna_binop series_apply_labels)

lemma residual_func_Some:
  "residual_func M lg p x y (Some w) =
     (let f = series_apply (\<lambda>v. M v p) x;
          a = (if lg then series_apply np_log y else y);
          b = (if lg then series_apply np_log f else f);
          m = mean (series_binop fsub a b)
      in map snd (series_binop fmul
           (map (\<lambda>i. (i, case fsub (lookup a i) (lookup b i) of None \<Rightarrow> m | Some u \<Rightarrow> Some u))
              (union_index (map fst y) (map fst x))) w))"
  by (simp add: residual_func_def Let_def fillna_binop series_apply_labels)

lemma residual_unit_weights:
  assumes ones: "list_all (\<lambda>v. v = Some 1) (map snd w)"
    and idx: "map fst w = map fst x \<and> set (map fst y) \<subseteq> set (map fst x) \<or>
              map fst w = map fst y \<and> set (map fst x) \<subseteq> set (map fst y)"
  shows "residual_func M lg p x y (Some w) = residual_func M lg p x y None"
proof -
  let ?u = "union_index (map fst y) (map fst x)"
  have c: "set (map fst x) \<subseteq> set (map fst y) \<or> set (map fst y) \<subseteq> set (map fst x)"
    using idx by auto
  have U: "union_index ?u (map fst w) = ?u"
    using idx union_index_again(1,2)[OF c] by auto
  have sub: "set ?u \<subseteq> set (map fst w)"
    unfolding union_index_set using idx by (metis Un_least order_refl)
  show ?thesis
    unfolding residual_func_None residual_func_Some Let_def
    by (rule weights_one[OF ones U sub])
qed

text \<open>
  Two runs of the loop whose objectives agree differ in the calls they record at most.
\<close>

lemma NLS_body_weights:
  assumes st: "st1\<lparr>l_calls := []\<rparr> = st2\<lparr>l_calls := []\<rparr>"
    and n: "\<And>q. residual_func M lg q x (dropna ycol) w1 = residual_func M lg q x (dropna ycol) w2"
    and i: "\<And>q. residual_func M lg q (dropna ycol) x w1 = residual_func M lg q (dropna ycol) x w2"
  shows "map_sum fst (\<lambda>s. s\<lparr>l_calls := []\<rparr>) (NLS_body M ps w1 lg iv solver x col ycol st1) =
         map_sum fst (\<lambda>s. s\<lparr>l_calls := []\<rparr>) (NLS_body M ps w2 lg iv solver x col ycol st2)"
proof -
  from st have f: "l_values st1 = l_values st2" "l_stderr st1 = l_stderr st2"
    "l_residuals st1 = l_residuals st2" "l_fits st1 = l_fits st2" "l_result st1 = l_result st2"
    "locals.more st1 = locals.more st2"
    by (metis locals.select_convs locals.surjective locals.update_convs)+
  have e: "st1\<lparr>l_values := a, l_stderr := b, l_residuals := c, l_fits := d, l_result := r, l_calls := []\<rparr> =
           st2\<lparr>l_values := a, l_stderr := b, l_residuals := c, l_fits := d, l_result := r, l_calls := []\<rparr>"
    for a b c d r
    using f by (cases st1; cases st2) simp
  show ?thesis
    by (cases iv) (simp_all add: NLS_body_def Let_def minimize_args_def n i f e
                     split: pspec.splits sum.splits prod.splits)
qed

lemma NLS_loop_weights:
  assumes st: "st1\<lparr>l_calls := []\<rparr> = st2\<lparr>l_calls := []\<rparr>"
    and n: "\<And>cells q. residual_func M lg q x (dropna (column_series idx cells)) w1 =
                        residual_func M lg q x (dropna (column_series idx cells)) w2"
    and i: "\<And>cells q. residual_func M lg q (dropna (column_series idx cells)) x w1 =
                        residual_func M lg q (dropna (column_series idx cells)) x w2"
  shows "map_sum fst (\<lambda>s. s\<lparr>l_calls := []\<rparr>) (NLS_loop M ps w1 lg iv solver x idx cols st1) =
         map_sum fst (\<lambda>s. s\<lparr>l_calls := []\<rparr>) (NLS_loop M ps w2 lg iv solver x idx cols st2)"
  using st
proof (induction cols arbitrary: st1 st2)
  case Nil
  then show ?case by simp
next
  case (Cons a cols)
  obtain col cells where a: "a = (col, cells)" by (cases a)
  note b = NLS_body_weights[OF Cons.prems n i, of ps iv solver col cells]
  show ?case
  proof (cases "NLS_body M ps w1 lg iv solver x col (column_series idx cells) st1")
    case (Inl e1)
    with b obtain e2 where
      "NLS_body M ps w2 lg iv solver x col (column_series idx cells) st2 = Inl e2" "fst e1 = fst e2"
      by (cases "NLS_body M ps w2 lg iv solver x col (column_series idx cells) st2") auto
    with Inl a show ?thesis by simp
  next
    case (Inr s1)
    with b obtain s2 where
      s2: "NLS_body M ps w2 lg iv solver x col (column_series idx cells) st2 = Inr s2"
      and r: "s1\<lparr>l_calls := []\<rparr> = s2\<lparr>l_calls := []\<rparr>"
      by (cases "NLS_body M ps w2 lg iv solver x col (column_series idx cells) st2") auto
    from Cons.IH[OF r] Inr s2 a show ?thesis by simp
  qed
qed

lemma NLS_finish_calls_free:
  assumes "st1\<lparr>l_calls := []\<rparr> = st2\<lparr>l_calls := []\<rparr>"
  shows "snd (NLS_finish M pl st1) = snd (NLS_finish M pl st2)"
proof -
  from assms have f: "l_values st1 = l_values st2" "l_stderr st1 = l_stderr st2"
    "l_residuals st1 = l_residuals st2" "l_fits st1 = l_fits st2" "l_result st1 = l_result st2"
    by (metis locals.select_convs locals.surjective locals.update_convs)+
  show ?thesis
    by (simp add: NLS_finish_def Let_def f getattr_def setattr_def split: sum.splits option.splits)
qed

lemma dropna_column_labels: "set (map fst (dropna (column_series idx cells))) \<subseteq> set idx"
  by (auto simp: dropna_def column_series_def dest: set_zip_leftD)

lemma x_axis_labels: "map fst (x_axis T) = index T"
  by (simp add: x_axis_def comp_def)

text \<open>
  C8.  With a weight of 1.0 at every row the residual function returns the vector it
  returns with no weights, for every parameter vector and for every \<open>x\<close> and \<open>y\<close> of
  which one carries the labels of the weights and the other has its labels among
  them, as the x axis and a column of a table do.  So a call of \<open>NLS\<close> with such
  weights has the outcome of the call with no weights: the same error, or a result
  with the same tables and the same model.
\<close>

theorem unit_weights_same_fit:
  assumes ones: "list_all (\<lambda>v. v = Some 1) ws"
    and len: "length ws = length (index T)"
  shows "(\<forall>p x y wx. map snd wx = ws \<and>
            (map fst wx = map fst x \<and> set (map fst y) \<subseteq> set (map fst x) \<or>
             map fst wx = map fst y \<and> set (map fst x) \<subseteq> set (map fst y)) \<longrightarrow>
            residual_func M lg p x y (Some wx) = residual_func M lg p x y None) \<and>
         snd (NLS T M ps (Some ws) lg iv pl solver) = snd (NLS T M ps None lg iv pl solver)"
proof (intro conjI allI impI)
  fix p :: parameters and x y wx :: series
  assume a: "map snd wx = ws \<and>
            (map fst wx = map fst x \<and> set (map fst y) \<subseteq> set (map fst x) \<or>
             map fst wx = map fst y \<and> set (map fst x) \<subseteq> set (map fst y))"
  from a ones have o: "list_all (\<lambda>v. v = Some 1) (map snd wx)" by simp
  from a show "residual_func M lg p x y (Some wx) = residual_func M lg p x y None"
    by (intro residual_unit_weights[OF o]) simp
next
  let ?w = "zip (map fst (x_axis T)) ws"
  have cw: "check_weights (Some ws) (x_axis T) = Inr (Some ?w)"
    using len by (simp add: check_weights_def x_axis_def)
  have wl: "map fst ?w = index T" "map snd ?w = ws"
    using len by (simp_all add: x_axis_labels)
  have o: "list_all (\<lambda>v. v = Some 1) (map snd ?w)" using ones wl by simp
  have n: "residual_func M lg q (x_axis T) (dropna (column_series (index T) cells)) (Some ?w) =
           residual_func M lg q (x_axis T) (dropna (column_series (index T) cells)) None" for cells q
    by (rule residual_unit_weights[OF o])
       (use wl dropna_column_labels[of "index T" cells] in \<open>simp only: x_axis_labels simp_thms\<close>)
  have i: "residual_func M lg q (dropna (column_series (index T) cells)) (x_axis T) (Some ?w) =
           residual_func M lg q (dropna (column_series (index T) cells)) (x_axis T) None" for cells q
    by (rule residual_unit_weights[OF o])
       (use wl dropna_column_labels[of "index T" cells] in \<open>simp only: x_axis_labels simp_thms\<close>)
  have L: "map_sum fst (\<lambda>s. s\<lparr>l_calls := []\<rparr>)
             (NLS_loop M ps (Some ?w) lg iv solver (x_axis T) (index T) (columns T) st) =
           map_sum fst (\<lambda>s. s\<lparr>l_calls := []\<rparr>)
             (NLS_loop M ps None lg iv solver (x_axis T) (index T) (columns T) st)"
    for st :: "'a locals"
    by (rule NLS_loop_weights[OF refl n i])
  have cn: "check_weights None (x_axis T) = Inr None" by (simp add: check_weights_def)
  have N: "NLS T M ps wsx lg iv pl solver =
      (case sample_params ps T of
         Inl e \<Rightarrow> ([], Inl e)
       | Inr (p, calls) \<Rightarrow>
           (case NLS_loop M ps w' lg iv solver (x_axis T) (index T) (columns T)
                   \<lparr>l_values = \<lparr>index = map fst p, columns = []\<rparr>,
                    l_stderr = \<lparr>index = map fst p, columns = []\<rparr>,
                    l_residuals = [], l_fits = [], l_result = None, l_calls = calls\<rparr> of
              Inl (e, calls) \<Rightarrow> (calls, Inl e)
            | Inr st \<Rightarrow> NLS_finish M pl st))"
    if "check_weights wsx (x_axis T) = Inr w'" for wsx w'
    using that by (simp add: NLS_def Let_def)
  show "snd (NLS T M ps (Some ws) lg iv pl solver) = snd (NLS T M ps None lg iv pl solver)"
  proof (cases "sample_params ps T")
    case (Inl e)
    then show ?thesis by (simp add: N[OF cw] N[OF cn])
  next
    case (Inr pc)
    obtain p0 calls0 where pc: "pc = (p0, calls0 :: 'a call list)" by (cases pc)
    let ?st = "\<lparr>l_values = \<lparr>index = map fst p0, columns = []\<rparr>,
         l_stderr = \<lparr>index = map fst p0, columns = []\<rparr>,
         l_residuals = [], l_fits = [], l_result = None, l_calls = calls0\<rparr>"
    show ?thesis
    proof (cases "NLS_loop M ps (Some ?w) lg iv solver (x_axis T) (index T) (columns T) ?st")
      case (Inl e1)
      with L[of ?st] obtain e2 where
        "NLS_loop M ps None lg iv solver (x_axis T) (index T) (columns T) ?st = Inl e2" "fst e1 = fst e2"
        by (cases "NLS_loop M ps None lg iv solver (x_axis T) (index T) (columns T) ?st") auto
      with Inl Inr pc show ?thesis
        by (simp add: N[OF cw] N[OF cn] case_prod_unfold)
    next
      case (Inr s1)
      with L[of ?st] obtain s2 where
        s2: "NLS_loop M ps None lg iv solver (x_axis T) (index T) (columns T) ?st = Inr s2"
        and r: "s1\<lparr>l_calls := []\<rparr> = s2\<lparr>l_calls := []\<rparr>"
        by (cases "NLS_loop M ps None lg iv solver (x_axis T) (index T) (columns T) ?st") auto
      from NLS_finish_calls_free[OF r, of M pl] Inr s2 \<open>sample_params ps T = Inr pc\<close> pc
      show ?thesis
        by (simp add: N[OF cw] N[OF cn])
    qed
  qed
qed

theorem unit_weights_same_fit_witness:
  "residual_func line_model False unit_params [(1, Some 1), (2, Some 2), (3, Some 3)]
      [(1, Some 2), (3, Some 6)] (Some [(1, Some 1), (2, Some 1), (3, Some 1)]) =
   residual_func line_model False unit_params [(1, Some 1), (2, Some 2), (3, Some 3)]
      [(1, Some 2), (3, Some 6)] None \<and>
   snd (NLS gap_table line_model (Fixed unit_params) (Some [Some 1, Some 1, Some 1])
          False False False (probe_solver True)) =
   snd (NLS gap_table line_model (Fixed unit_params) None False False False (probe_solver True))"
proof -
  have ones: "list_all (\<lambda>v. v = Some 1) [Some 1, Some 1, Some (1::real)]" by simp
  have len: "length [Some 1, Some 1, Some (1::real)] = length (index gap_table)"
    by (simp add: gap_table_def)
  note t = unit_weights_same_fit[OF ones len, of line_model False "Fixed unit_params" False False
      "probe_solver True"]
  from conjunct1[OF t, rule_format, of "[(1, Some 1), (2, Some 1), (3, Some 1)]"
      "[(1, Some 1), (2, Some 2), (3, Some 3)]" "[(1, Some 2), (3, Some 6)]" unit_params]
  have "residual_func line_model False unit_params [(1, Some 1), (2, Some 2), (3, Some 3)]
      [(1, Some 2), (3, Some 6)] (Some [(1, Some 1), (2, Some 1), (3, Some 1)]) =
   residual_func line_model False unit_params [(1, Some 1), (2, Some 2), (3, Some 3)]
      [(1, Some 2), (3, Some 6)] None"
    by simp
  with conjunct2[OF t] show ?thesis by simp
qed

lemma strict_sorted_real: "sorted_wrt (<) (u::real list) \<Longrightarrow> sorted u \<and> distinct u"
  using strict_sorted_iff by blast

lemma union_index_sub:
  assumes "sorted_wrt (<) (u::real list)" "set a \<subseteq> set u"
  shows "union_index a u = u" "union_index u a = u"
  using sort_remdups_id[of u a] strict_sorted_real[OF assms(1)] assms(2)
  by (auto simp: union_index_def)

lemma lookup_absent: "i \<notin> set (map fst s) \<Longrightarrow> lookup s i = None"
proof -
  assume "i \<notin> set (map fst s)"
  then have "map_of s i = None" by (simp add: map_of_eq_None_iff)
  then show ?thesis by (simp add: lookup_def)
qed

lemma lookup_dropna: "distinct (map fst s) \<Longrightarrow> lookup (dropna s) i = lookup s i"
proof (induction s)
  case Nil
  then show ?case by (simp add: dropna_def)
next
  case (Cons a s)
  obtain j v where a: "a = (j, v)" by (cases a)
  show ?case
  proof (cases "j = i \<and> v = None")
    case True
    with Cons.prems a have "i \<notin> set (map fst (dropna s))" by (auto simp: dropna_def)
    then have "lookup (dropna s) i = None" by (rule lookup_absent)
    with True a show ?thesis by (simp add: dropna_def lookup_def)
  next
    case False
    with Cons a show ?thesis by (auto simp: dropna_def lookup_def)
  qed
qed

lemma lookup_zip:
  "distinct idx \<Longrightarrow> length cells = length idx \<Longrightarrow> k < length idx \<Longrightarrow>
   lookup (zip idx cells) (idx ! k) = cells ! k"
  by (simp add: lookup_def map_of_zip_nth)

lemma lookup_apply:
  "g None = None \<or> i \<in> set (map fst s) \<Longrightarrow> lookup (series_apply g s) i = g (lookup s i)"
  by (induction s) (auto simp: lookup_def series_apply_def)

lemma lookup_column:
  assumes "distinct idx" "length cells = length idx" "k < length idx"
  shows "lookup (dropna (column_series idx cells)) (idx ! k) = cells ! k"
proof -
  have "distinct (map fst (column_series idx cells))"
    using assms by (simp add: column_series_def)
  then show ?thesis using assms by (simp add: lookup_dropna column_series_def lookup_zip)
qed

lemma lookup_x_axis: "i \<in> set (index T) \<Longrightarrow> lookup (x_axis T) i = Some i"
  unfolding x_axis_def by (rule lookup_map)

lemma map_filter_labelled:
  "List.map_filter snd (map (\<lambda>i. (i, d i)) u) = List.map_filter id (map d u)"
  by (induction u) (simp_all add: List.map_filter_simps split: option.splits)

lemma mean_labelled: "mean (map (\<lambda>i. (i, d i)) u) = mean_finite (map d u)"
  by (simp add: mean_def mean_finite_def map_filter_labelled)

lemma residual_func_labels:
  "residual_func M lg p x y None =
     (let d = (\<lambda>i. if lg
                 then fsub (lookup (series_apply np_log y) i)
                        (lookup (series_apply np_log (series_apply (\<lambda>v. M v p) x)) i)
                 else fsub (lookup y i) (lookup (series_apply (\<lambda>v. M v p) x) i));
          u = union_index (map fst y) (map fst x)
      in map (\<lambda>i. case d i of None \<Rightarrow> mean_finite (map d u) | Some v \<Rightarrow> Some v) u)"
  by (cases lg)
     (simp_all add: residual_func_None Let_def series_binop_def mean_labelled series_apply_labels
        cong: option.case_cong)

lemma column_rows:
  assumes S: "sorted_wrt (<) (index T)" and len: "length cells = length (index T)"
  shows "map (\<lambda>i. if lg
                 then fsub (lookup (series_apply np_log (dropna (column_series (index T) cells))) i)
                        (lookup (series_apply np_log (series_apply (\<lambda>v. M v p) (x_axis T))) i)
                 else fsub (lookup (dropna (column_series (index T) cells)) i)
                        (lookup (series_apply (\<lambda>v. M v p) (x_axis T)) i)) (index T) =
         map (\<lambda>(i, c). row_residual M lg p i c) (zip (index T) cells)"
proof (rule nth_equalityI)
  show "length (map (\<lambda>i. if lg
                 then fsub (lookup (series_apply np_log (dropna (column_series (index T) cells))) i)
                        (lookup (series_apply np_log (series_apply (\<lambda>v. M v p) (x_axis T))) i)
                 else fsub (lookup (dropna (column_series (index T) cells)) i)
                        (lookup (series_apply (\<lambda>v. M v p) (x_axis T)) i)) (index T)) =
        length (map (\<lambda>(i, c). row_residual M lg p i c) (zip (index T) cells))"
    using len by simp
next
  fix k
  assume "k < length (map (\<lambda>i. if lg
                 then fsub (lookup (series_apply np_log (dropna (column_series (index T) cells))) i)
                        (lookup (series_apply np_log (series_apply (\<lambda>v. M v p) (x_axis T))) i)
                 else fsub (lookup (dropna (column_series (index T) cells)) i)
                        (lookup (series_apply (\<lambda>v. M v p) (x_axis T)) i)) (index T))"
  then have k: "k < length (index T)" by simp
  have d: "distinct (index T)" using S strict_sorted_real by blast
  have m: "index T ! k \<in> set (map fst (x_axis T))"
    using k by (simp add: x_axis_labels)
  have y: "lookup (dropna (column_series (index T) cells)) (index T ! k) = cells ! k"
    by (rule lookup_column[OF d len k])
  have yl: "lookup (series_apply np_log (dropna (column_series (index T) cells))) (index T ! k) =
            np_log (cells ! k)"
    by (subst lookup_apply) (simp_all add: np_log_def y)
  have f: "lookup (series_apply (\<lambda>v. M v p) (x_axis T)) (index T ! k) = M (Some (index T ! k)) p"
    using m k by (subst lookup_apply) (simp_all add: lookup_x_axis)
  have fl: "lookup (series_apply np_log (series_apply (\<lambda>v. M v p) (x_axis T))) (index T ! k) =
            np_log (M (Some (index T ! k)) p)"
    by (subst lookup_apply) (simp_all add: np_log_def f)
  show "map (\<lambda>i. if lg
                 then fsub (lookup (series_apply np_log (dropna (column_series (index T) cells))) i)
                        (lookup (series_apply np_log (series_apply (\<lambda>v. M v p) (x_axis T))) i)
                 else fsub (lookup (dropna (column_series (index T) cells)) i)
                        (lookup (series_apply (\<lambda>v. M v p) (x_axis T)) i)) (index T) ! k =
        map (\<lambda>(i, c). row_residual M lg p i c) (zip (index T) cells) ! k"
    using k len by (simp add: y yl f fl row_residual_def)
qed

lemma residual_rows:
  assumes S: "sorted_wrt (<) (index T)" and len: "length cells = length (index T)"
  shows "residual_func M lg p (x_axis T) (dropna (column_series (index T) cells)) None =
         map (\<lambda>d. case d of None \<Rightarrow>
                     mean_finite (map (\<lambda>(i, c). row_residual M lg p i c) (zip (index T) cells))
                   | Some v \<Rightarrow> Some v)
           (map (\<lambda>(i, c). row_residual M lg p i c) (zip (index T) cells))"
proof -
  have u: "union_index (map fst (dropna (column_series (index T) cells))) (map fst (x_axis T)) = index T"
    unfolding x_axis_labels by (rule union_index_sub(1)[OF S dropna_column_labels])
  show ?thesis
    unfolding residual_func_labels Let_def u
    by (simp only: column_rows[OF S len, symmetric] map_map comp_def)
qed

lemma residual_rows_nth:
  assumes S: "sorted_wrt (<) (index T)" and len: "length cells = length (index T)"
    and k: "k < length (index T)"
  shows "residual_func M lg p (x_axis T) (dropna (column_series (index T) cells)) None ! k =
         (case row_residual M lg p (index T ! k) (cells ! k) of
            None \<Rightarrow> mean_finite (map (\<lambda>(i, c). row_residual M lg p i c) (zip (index T) cells))
          | Some v \<Rightarrow> Some v)"
  using k len by (simp add: residual_rows[OF S len])

lemma residual_rows_length:
  assumes S: "sorted_wrt (<) (index T)" and len: "length cells = length (index T)"
  shows "length (residual_func M lg p (x_axis T) (dropna (column_series (index T) cells)) None) =
         length (index T)"
  using len by (simp add: residual_rows[OF S len])

text \<open>
  C7.  For the x axis of a table with increasing labels and a column of it, the
  residual function built with \<open>log_residual\<close> set and no weights returns one entry per
  row.  At a row where the observed value and the predicted value are both finite and
  positive the entry is \<open>log(observed) - log(predicted)\<close>; at every other row it is the
  mean of the finite log residuals of that evaluation (NaN when there is none).
\<close>

theorem log_residual_mean_substitution:
  assumes S: "sorted_wrt (<) (index T)" and len: "length cells = length (index T)"
    and k: "k < length (index T)"
  shows "length (residual_func M True p (x_axis T) (dropna (column_series (index T) cells)) None) =
           length (index T) \<and>
         (\<forall>yv fv. cells ! k = Some yv \<and> M (Some (index T ! k)) p = Some fv \<and> 0 < yv \<and> 0 < fv \<longrightarrow>
            residual_func M True p (x_axis T) (dropna (column_series (index T) cells)) None ! k =
              Some (ln yv - ln fv)) \<and>
         (\<not> (\<exists>yv fv. cells ! k = Some yv \<and> M (Some (index T ! k)) p = Some fv \<and> 0 < yv \<and> 0 < fv) \<longrightarrow>
            residual_func M True p (x_axis T) (dropna (column_series (index T) cells)) None ! k =
              mean_finite (map (\<lambda>(i, c). row_residual M True p i c) (zip (index T) cells)))"
proof (intro conjI allI impI)
  show "length (residual_func M True p (x_axis T) (dropna (column_series (index T) cells)) None) =
           length (index T)"
    by (rule residual_rows_length[OF S len])
next
  fix yv fv
  assume "cells ! k = Some yv \<and> M (Some (index T ! k)) p = Some fv \<and> 0 < yv \<and> 0 < fv"
  then have "row_residual M True p (index T ! k) (cells ! k) = Some (ln yv - ln fv)"
    by (simp add: row_residual_def np_log_def fsub_def)
  then show "residual_func M True p (x_axis T) (dropna (column_series (index T) cells)) None ! k =
              Some (ln yv - ln fv)"
    by (simp add: residual_rows_nth[OF S len k])
next
  assume "\<not> (\<exists>yv fv. cells ! k = Some yv \<and> M (Some (index T ! k)) p = Some fv \<and> 0 < yv \<and> 0 < fv)"
  then have "row_residual M True p (index T ! k) (cells ! k) = None"
    by (auto simp: row_residual_def np_log_def fsub_def split: option.splits)
  then show "residual_func M True p (x_axis T) (dropna (column_series (index T) cells)) None ! k =
              mean_finite (map (\<lambda>(i, c). row_residual M True p i c) (zip (index T) cells))"
    by (simp add: residual_rows_nth[OF S len k])
qed

theorem log_residual_mean_substitution_witness:
  "residual_func line_model True unit_params [(1, Some 1), (2, Some 2), (3, Some 3)]
      [(1, Some 2), (3, Some 6)] None ! 0 = Some (ln 2 - ln 1) \<and>
   residual_func line_model True unit_params [(1, Some 1), (2, Some 2), (3, Some 3)]
      [(1, Some 2), (3, Some 6)] None ! 1 =
     mean_finite [Some (ln 2 - ln 1), None, Some (ln 6 - ln 3)] \<and>
   length (residual_func line_model True unit_params [(1, Some 1), (2, Some 2), (3, Some 3)]
      [(1, Some 2), (3, Some 6)] None) = 3"
proof -
  have S: "sorted_wrt (<) (index gap_table)" by (simp add: gap_table_def)
  have len: "length [Some 2, None, Some (6::real)] = length (index gap_table)"
    by (simp add: gap_table_def)
  have k0: "0 < length (index gap_table)" and k1: "1 < length (index gap_table)"
    by (simp_all add: gap_table_def)
  have x: "x_axis gap_table = [(1, Some 1), (2, Some 2), (3, Some 3)]"
    by (simp add: x_axis_def gap_table_def)
  have y: "dropna (column_series (index gap_table) [Some 2, None, Some 6]) = [(1, Some 2), (3, Some 6)]"
    by (simp add: dropna_def column_series_def gap_table_def)
  have i: "index gap_table = [1, 2, 3]" by (simp add: gap_table_def)
  from log_residual_mean_substitution[OF S len k0, of line_model unit_params]
       log_residual_mean_substitution[OF S len k1, of line_model unit_params]
  show ?thesis
    unfolding x y i
    by (simp add: line_model_def unit_params_def fmul_def row_residual_def np_log_def fsub_def
          dropna_def column_series_def)
qed

lemma map_of_columns:
  "distinct (map fst cols) \<Longrightarrow> (c, cells) \<in> set cols \<Longrightarrow>
   map_of (map (\<lambda>(c, cells). (c, F cells)) cols) c = Some (F cells)"
  by (induction cols) (auto simp: rev_image_eqI)

text \<open>
  How far a missing row stays in the fit of its column.  For a table with increasing x
  labels, when \<open>NLS\<close> returns from a fit that is not inverted, the solver was called for
  each column with the y series without its missing rows, but with the whole x axis; the
  residual of that column (before the weights) has one entry per row of the table, the
  row's observed minus predicted value where that is finite, and the mean of the finite
  ones at a row whose value is missing.  The residual series of the column in the
  result is labelled by the whole x axis and holds what the solver returned for that
  objective, which depends on the cells of this column only.
\<close>

theorem NLS_missing_rows:
  assumes run: "NLS T M ps ws lg False pl solver = (calls, Inr r)"
    and S: "sorted_wrt (<) (index T)"
    and R: "list_all (\<lambda>(c, cells). length cells = length (index T)) (columns T)"
    and D: "distinct (map fst (columns T))"
    and C: "(c, cells) \<in> set (columns T)"
  shows "\<exists>w res s.
      check_weights ws (x_axis T) = Inr w \<and>
      Minimize_call (column_params ps (dropna (column_series (index T) cells))) (x_axis T)
        (dropna (column_series (index T) cells)) w \<in> set calls \<and>
      getattr r ''residuals'' = Inr (Panel res) \<and> map_of res c = Some s \<and>
      map fst s = index T \<and>
      map snd s = residual (solver
        (\<lambda>q. residual_func M lg q (x_axis T) (dropna (column_series (index T) cells)) w)
        (column_params ps (dropna (column_series (index T) cells)))) \<and>
      (\<forall>q. length (residual_func M lg q (x_axis T) (dropna (column_series (index T) cells)) None) =
            length (index T)) \<and>
      (\<forall>q k. k < length (index T) \<longrightarrow>
         residual_func M lg q (x_axis T) (dropna (column_series (index T) cells)) None ! k =
           (case row_residual M lg q (index T ! k) (cells ! k) of
              None \<Rightarrow> mean_finite (map (\<lambda>(i, c). row_residual M lg q i c) (zip (index T) cells))
            | Some v \<Rightarrow> Some v)) \<and>
      (\<forall>q k. k < length (index T) \<and> cells ! k = None \<longrightarrow>
         row_residual M lg q (index T ! k) (cells ! k) = None)"
proof -
  let ?y = "dropna (column_series (index T) cells)"
  from run obtain w p0 calls0 st where
    cw: "check_weights ws (x_axis T) = Inr w"
    and sp: "sample_params ps T = Inr (p0, calls0)"
    and loop: "NLS_loop M ps w lg False solver (x_axis T) (index T) (columns T)
        \<lparr>l_values = \<lparr>index = map fst p0, columns = []\<rparr>,
         l_stderr = \<lparr>index = map fst p0, columns = []\<rparr>,
         l_residuals = [], l_fits = [], l_result = None, l_calls = calls0\<rparr> = Inr st"
    and fin: "NLS_finish M pl st = (calls, Inr r)"
    by (rule NLS_Inr)
  have d: "distinct ([] @ map fst (columns T))" using D by simp
  note L = NLS_loop_Inr[OF loop d]
  from L have lr: "l_residuals st =
       map (\<lambda>(c, cells). (c, zip (List.map_filter snd (x_axis T))
              (residual (column_fit M ps w lg False solver (x_axis T)
                 (dropna (column_series (index T) cells)))))) (columns T)"
    by simp
  from L have lc: "l_calls st = calls0 @
       concat (map (\<lambda>(c, cells). column_calls ps w False (x_axis T)
                 (dropna (column_series (index T) cells))) (columns T))"
    by simp
  from L have ll: "list_all (\<lambda>(c, cells). length (residual (column_fit M ps w lg False solver (x_axis T)
       (dropna (column_series (index T) cells)))) = length (List.map_filter snd (x_axis T))) (columns T)"
    by simp
  from ll C have rl: "length (residual (column_fit M ps w lg False solver (x_axis T) ?y)) =
      length (index T)"
    by (auto simp: list_all_iff x_axis_values)
  from R C have len: "length cells = length (index T)" by (auto simp: list_all_iff)
  let ?s = "zip (index T) (residual (column_fit M ps w lg False solver (x_axis T) ?y))"
  have m: "map_of (l_residuals st) c = Some ?s"
    unfolding lr x_axis_values by (rule map_of_columns[OF D C])
  have cf: "column_fit M ps w lg False solver (x_axis T) ?y =
      solver (\<lambda>q. residual_func M lg q (x_axis T) ?y w) (column_params ps ?y)"
    by (simp add: column_fit_def minimize_args_def)
  have mc: "Minimize_call (column_params ps ?y) (x_axis T) ?y w \<in> set (l_calls st)"
    unfolding lc using C by (auto simp: column_calls_def minimize_args_def intro!: bexI[of _ "(c, cells)"])
  have mc': "Minimize_call (column_params ps ?y) (x_axis T) ?y w \<in> set calls"
    using mc NLS_finish_Inr(2)[OF fin] by simp
  from NLS_finish_Inr(1)[OF fin]
  have g: "getattr r ''residuals'' = Inr (Panel (l_residuals st))"
    by (auto simp: getattr_def)
  have miss: "row_residual M lg q i None = None" for q i
    by (simp add: row_residual_def fsub_def np_log_def)
  show ?thesis
    apply (rule exI[of _ w], rule exI[of _ "l_residuals st"], rule exI[of _ ?s])
    using cw mc' g m rl
    by (simp add: cf residual_rows_length[OF S len] residual_rows_nth[OF S len] miss)
qed

theorem NLS_missing_rows_witness:
  "\<exists>calls r res s.
     NLS gap_table line_model (Fixed unit_params) None False False False (probe_solver True)
       = (calls, Inr r) \<and>
     Minimize_call unit_params [(1, Some 1), (2, Some 2), (3, Some 3)] [(1, Some 2), (3, Some 6)] None
       \<in> set calls \<and>
     getattr r ''residuals'' = Inr (Panel res) \<and> map_of res ''a'' = Some s \<and>
     map fst s = [1, 2, 3] \<and>
     length (residual_func line_model False unit_params [(1, Some 1), (2, Some 2), (3, Some 3)]
               [(1, Some 2), (3, Some 6)] None) = 3 \<and>
     residual_func line_model False unit_params [(1, Some 1), (2, Some 2), (3, Some 3)]
               [(1, Some 2), (3, Some 6)] None ! 1 = Some 2"
proof -
  from gap_fit obtain calls r where
    e: "NLS gap_table line_model (Fixed unit_params) None False False False (probe_solver True)
          = (calls, Inr r)" by blast
  have S: "sorted_wrt (<) (index gap_table)" by (simp add: gap_table_def)
  have R: "list_all (\<lambda>(c, cells). length cells = length (index gap_table)) (columns gap_table)"
    by (simp add: gap_table_def)
  have D: "distinct (map fst (columns gap_table))" by (simp add: gap_table_def)
  have C: "(''a'', [Some 2, None, Some 6]) \<in> set (columns gap_table)" by (simp add: gap_table_def)
  have y: "dropna (column_series (index gap_table) [Some 2, None, Some 6]) = [(1, Some 2), (3, Some 6)]"
    by (simp add: dropna_def column_series_def gap_table_def)
  have x: "x_axis gap_table = [(1, Some 1), (2, Some 2), (3, Some 3)]"
    by (simp add: x_axis_def gap_table_def)
  from NLS_missing_rows[OF e S R D C] obtain w res s where
    a: "check_weights None (x_axis gap_table) = Inr w"
      "Minimize_call (column_params (Fixed unit_params) [(1, Some 2), (3, Some 6)])
         [(1, Some 1), (2, Some 2), (3, Some 3)] [(1, Some 2), (3, Some 6)] w \<in> set calls"
      "getattr r ''residuals'' = Inr (Panel res)" "map_of res ''a'' = Some s"
      "map fst s = index gap_table"
      "\<forall>q. length (residual_func line_model False q [(1, Some 1), (2, Some 2), (3, Some 3)]
               [(1, Some 2), (3, Some 6)] None) = length (index gap_table)"
      "\<forall>q k. k < length (index gap_table) \<longrightarrow>
         residual_func line_model False q [(1, Some 1), (2, Some 2), (3, Some 3)]
            [(1, Some 2), (3, Some 6)] None ! k =
           (case row_residual line_model False q (index gap_table ! k) ([Some 2, None, Some 6] ! k) of
              None \<Rightarrow> mean_finite (map (\<lambda>(i, c). row_residual line_model False q i c)
                         (zip (index gap_table) [Some 2, None, Some 6]))
            | Some v \<Rightarrow> Some v)"
    unfolding x y by blast
  from a(1) have w: "w = None" by (simp add: check_weights_def)
  from a(7)[rule_format, of 1 unit_params]
  have "residual_func line_model False unit_params [(1, Some 1), (2, Some 2), (3, Some 3)]
               [(1, Some 2), (3, Some 6)] None ! 1 = Some 2"
    by (simp add: gap_table_def row_residual_def mean_finite_def List.map_filter_simps
          line_model_def unit_params_def fsub_def fmul_def)
  with e a w show ?thesis
    by (simp add: column_params_def gap_table_def)
qed

text \<open>
  C1.  The rows where a column has no value are to stay out of that column's fit and
  residual, as the docstring of \<open>NLS\<close> has it (missing values will be ignored).
  The code does not do so: column \<open>a\<close> has no value at \<open>x = 2\<close>, yet the solver is
  called with the whole x axis, and the residual series of column \<open>a\<close> has an entry at
  \<open>x = 2\<close>, the mean of the other two.
\<close>

theorem NLS_keeps_missing_rows:
  "\<exists>r res. NLS gap_table line_model (Fixed unit_params) None False False False (probe_solver True) =
      ([Minimize_call unit_params [(1, Some 1), (2, Some 2), (3, Some 3)]
          [(1, Some 2), (3, Some 6)] None,
        Minimize_call unit_params [(1, Some 1), (2, Some 2), (3, Some 3)]
          [(1, Some 1), (2, Some 2), (3, Some 3)] None], Inr r) \<and>
     getattr r ''residuals'' = Inr (Panel res) \<and>
     map_of res ''a'' = Some [(1, Some 1), (2, Some 2), (3, Some 3)]"
  by (simp add: eval_defs)

text \<open>
  The filled row moves the fit.  For the values \<open>1\<close> at \<open>x = 1\<close> and \<open>4\<close> at \<open>x = 3\<close>
  and none at \<open>x = 2\<close>, the line \<open>k * x\<close> that fits the two rows best has \<open>k = 13/10\<close>;
  the objective that \<open>NLS\<close> hands to the solver is smaller at \<open>k = 9/7\<close>.
\<close>

lemma missing_row_moves_fit:
  "residual_func line_model False (slope_params (13 / 10)) [(1, Some 1), (2, Some 2), (3, Some 3)]
      (dropna (column_series [1, 2, 3] [Some 1, None, Some 4])) None =
     [Some (- 3 / 10), Some (- 1 / 10), Some (1 / 10)] \<and>
   residual_func line_model False (slope_params (9 / 7)) [(1, Some 1), (2, Some 2), (3, Some 3)]
      (dropna (column_series [1, 2, 3] [Some 1, None, Some 4])) None =
     [Some (- 2 / 7), Some (- 1 / 14), Some (1 / 7)] \<and>
   sum_squares [Some (- 2 / 7), Some (- 1 / 14), Some (1 / 7)] <
   sum_squares [Some (- 3 / 10), Some (- 1 / 10), Some (1 / 10)]"
  by (simp add: eval_defs slope_params_def sum_squares_def)

lemma dropna_full:
  "full_column idx cells \<Longrightarrow> dropna (column_series idx cells) = column_series idx cells"
  by (auto simp: full_column_def dropna_def column_series_def list_all_iff filter_id_conv
      dest: set_zip_rightD)

lemma log_values:
  assumes "length cells = length idx"
  shows "map snd (series_apply np_log (column_series idx cells)) = map np_log cells"
proof -
  have "map snd (series_apply np_log (zip idx cells)) = map np_log (map snd (zip idx cells))"
    by (simp add: series_apply_def comp_def case_prod_unfold)
  then show ?thesis using assms by (simp add: column_series_def)
qed

lemma log_axis: "map snd (series_apply np_log (x_axis T)) = map (\<lambda>i. np_log (Some i)) (index T)"
  by (simp add: series_apply_def x_axis_def comp_def)

lemma linregress_column:
  assumes "full_column (index T) cells"
  shows "linregress (map snd (series_apply np_log (x_axis T)))
           (map snd (series_apply np_log (dropna (column_series (index T) cells)))) =
         Inr (loglog_fit (index T) cells)"
proof -
  from assms have len: "length cells = length (index T)" by (simp add: full_column_def)
  show ?thesis
    by (simp add: dropna_full[OF assms] log_values[OF len] log_axis linregress_def loglog_fit_def len)
qed

lemma powerlaw_loop_full:
  assumes "list_all (\<lambda>(c, cells). full_column (index T) cells) cols"
    and "distinct (ks @ map fst cols)"
    and "map fst (columns vals) = ks" "map fst fits = ks"
  shows "powerlaw_loop (x_axis T) (index T) cols (vals, fits, calls) =
     Inr (vals\<lparr>columns := columns vals @
             map (\<lambda>(c, cells). (c, [fst (loglog_fit (index T) cells),
                                     np_exp (snd (loglog_fit (index T) cells))])) cols\<rparr>,
          fits @ map (\<lambda>(c, cells). (c, series_apply
                  (\<lambda>x. fmul (np_exp (snd (loglog_fit (index T) cells)))
                          (fpow x (fst (loglog_fit (index T) cells)))) (x_axis T))) cols,
          calls @ map (\<lambda>(c, cells). Print_call (fst (loglog_fit (index T) cells))
                                       (snd (loglog_fit (index T) cells))) cols)"
  using assms
proof (induction cols arbitrary: vals fits calls ks)
  case Nil
  then show ?case by simp
next
  case (Cons a cols)
  obtain col cells where a: "a = (col, cells)" by (cases a)
  from Cons.prems(1) a have f: "full_column (index T) cells"
    and r: "list_all (\<lambda>(c, cells). full_column (index T) cells) cols" by simp_all
  have fresh: "col \<notin> set ks" using Cons.prems(2) a by auto
  have d: "distinct ((ks @ [col]) @ map fst cols)" using Cons.prems(2) a by auto
  obtain s i where si: "loglog_fit (index T) cells = (s, i)" by (cases "loglog_fit (index T) cells")
  have k1: "map fst (columns (set_column vals col [s, np_exp i])) = ks @ [col]"
    by (simp add: set_column_def update_fresh[OF Cons.prems(3) fresh] Cons.prems(3))
  have k2: "map fst (AList.update col
              (series_apply (\<lambda>x. fmul (np_exp i) (fpow x s)) (x_axis T)) fits) = ks @ [col]"
    by (simp add: update_fresh[OF Cons.prems(4) fresh] Cons.prems(4))
  show ?case
    by (simp add: a linregress_column[OF f] si Cons.IH[OF r d k1 k2])
       (simp add: set_column_def update_fresh[OF Cons.prems(3) fresh]
          update_fresh[OF Cons.prems(4) fresh])
qed

lemma apply_axis: "series_apply g (x_axis T) = map (\<lambda>i. (i, g (Some i))) (index T)"
  by (simp add: series_apply_def x_axis_def)

lemma fit_powerlaw_full:
  assumes F: "list_all (\<lambda>(c, cells). full_column (index T) cells) (columns T)"
    and D: "distinct (map fst (columns T))"
    and N: "columns T \<noteq> []"
  shows "fit_powerlaw T pl =
     (map (\<lambda>(c, cells). Print_call (fst (loglog_fit (index T) cells))
                           (snd (loglog_fit (index T) cells))) (columns T) @
      (if pl then [Plot_call (Panel (map (\<lambda>(c, cells). (c, map (\<lambda>i. (i,
                      fmul (np_exp (snd (loglog_fit (index T) cells)))
                        (fpow (Some i) (fst (loglog_fit (index T) cells))))) (index T)))
                    (columns T)))] else []),
      Inr \<lparr>index = map fst (columns T),
           columns = [(''n'', map (\<lambda>(c, cells). fst (loglog_fit (index T) cells)) (columns T)),
                      (''A'', map (\<lambda>(c, cells). np_exp (snd (loglog_fit (index T) cells)))
                                (columns T))]\<rparr>)"
proof -
  have d: "distinct ([] @ map fst (columns T))" using D by simp
  note L = powerlaw_loop_full[OF F d, of "\<lparr>index = [''n'', ''A''], columns = []\<rparr>" "[]" "[]"]
  obtain a rest where c: "columns T = a # rest" using N by (cases "columns T") auto
  have ne: "map f (columns T) \<noteq> []" for f :: "'a \<times> float list \<Rightarrow> 'a \<times> series"
    using N by simp
  show ?thesis
    unfolding fit_powerlaw_def Let_def
    by (simp add: L pd_concat_def transpose_frame_def apply_axis comp_def case_prod_unfold
          split: list.splits)
       (simp add: c)
qed

lemma power_fit: "loglog_fit [1, exp 1] [Some (exp 1), Some (exp 2)] = (Some 1, Some 1)"
  by (simp add: loglog_fit_def least_squares_def np_mean_def np_log_def fadd_def fsub_def fmul_def
        fdiv_def Let_def)

lemma neg_fit: "loglog_fit [1, exp 1] [Some (- 1), Some 1] = (None, None)"
  by (simp add: loglog_fit_def least_squares_def np_mean_def np_log_def fadd_def fsub_def fmul_def
        fdiv_def Let_def)

text \<open>
  C5, as the code has it.  For a table with at least one column, distinct column labels
  and no missing value, \<open>fit_powerlaw\<close> returns one table, labelled by the column labels,
  with the columns \<open>n\<close> and \<open>A\<close>: per column the slope and the exponentiated intercept of
  the regression of \<open>log y\<close> on \<open>log x\<close>.  The fitted curves \<open>A * x^n\<close>, evaluated at every
  \<open>x\<close> of the axis, are not returned: they go to \<open>plots.fit\<close> when \<open>plot\<close> is set, and
  nowhere otherwise.  The other calls are the \<open>print\<close> of each slope and intercept.
\<close>

theorem fit_powerlaw_returns_n_A:
  assumes "list_all (\<lambda>(c, cells). full_column (index T) cells) (columns T)"
    and "distinct (map fst (columns T))"
    and "columns T \<noteq> []"
  shows "snd (fit_powerlaw T pl) =
           Inr \<lparr>index = map fst (columns T),
                columns = [(''n'', map (\<lambda>(c, cells). fst (loglog_fit (index T) cells)) (columns T)),
                           (''A'', map (\<lambda>(c, cells). np_exp (snd (loglog_fit (index T) cells)))
                                     (columns T))]\<rparr> \<and>
         fst (fit_powerlaw T pl) =
           map (\<lambda>(c, cells). Print_call (fst (loglog_fit (index T) cells))
                                 (snd (loglog_fit (index T) cells))) (columns T) @
           (if pl then [Plot_call (Panel (map (\<lambda>(c, cells). (c, map (\<lambda>i. (i,
                      fmul (np_exp (snd (loglog_fit (index T) cells)))
                        (fpow (Some i) (fst (loglog_fit (index T) cells))))) (index T)))
                    (columns T)))] else [])"
  by (simp add: fit_powerlaw_full[OF assms])

theorem fit_powerlaw_returns_n_A_witness:
  "snd (fit_powerlaw power_table True) =
     Inr \<lparr>index = [''a''], columns = [(''n'', [Some 1]), (''A'', [Some (exp 1)])]\<rparr> \<and>
   fst (fit_powerlaw power_table True) =
     [Print_call (Some 1) (Some 1),
      Plot_call (Panel [(''a'', [(1, Some (exp 1)), (exp 1, Some (exp 1 * exp 1))])])]"
proof -
  have F: "list_all (\<lambda>(c, cells). full_column (index power_table) cells) (columns power_table)"
    by (simp add: power_table_def full_column_def)
  have D: "distinct (map fst (columns power_table))" by (simp add: power_table_def)
  have N: "columns power_table \<noteq> []" by (simp add: power_table_def)
  from fit_powerlaw_returns_n_A[OF F D N, of True] show ?thesis
    by (simp add: power_table_def power_fit np_exp_def fmul_def fpow_def)
qed

text \<open>
  C5 fails as stated.  With a missing value in a column the regression is handed the
  logarithms of all x values and those of the values that are left, two arrays of
  different lengths, and the call ends in an error.  Without one, with \<open>plot\<close> off,
  all that leaves the function is the table of \<open>n\<close> and \<open>A\<close> and the printed line:
  no table of fitted curves is returned.
\<close>

theorem fit_powerlaw_no_curves:
  "fit_powerlaw gap_table False = ([], Inl ValueError) \<and>
   fit_powerlaw power_table False =
     ([Print_call (Some 1) (Some 1)],
      Inr \<lparr>index = [''a''], columns = [(''n'', [Some 1]), (''A'', [Some (exp 1)])]\<rparr>)"
proof -
  have F: "list_all (\<lambda>(c, cells). full_column (index power_table) cells) (columns power_table)"
    by (simp add: power_table_def full_column_def)
  have D: "distinct (map fst (columns power_table))" by (simp add: power_table_def)
  have N: "columns power_table \<noteq> []" by (simp add: power_table_def)
  have "fit_powerlaw gap_table False = ([], Inl ValueError)"
    by (simp add: fit_powerlaw_def gap_table_def x_axis_def linregress_def series_apply_def
          dropna_def column_series_def)
  moreover have "fit_powerlaw power_table False =
     ([Print_call (Some 1) (Some 1)],
      Inr \<lparr>index = [''a''], columns = [(''n'', [Some 1]), (''A'', [Some (exp 1)])]\<rparr>)"
    by (simp add: fit_powerlaw_full[OF F D N])
       (simp add: power_table_def power_fit np_exp_def)
  ultimately show ?thesis by simp
qed

lemma fadd_None: "None \<in> set xs \<Longrightarrow> foldr fadd xs (Some 0) = None"
  by (induction xs) (auto simp: fadd_def split: option.splits)

lemma np_mean_None: "None \<in> set xs \<Longrightarrow> np_mean xs = None"
  by (simp add: np_mean_def fadd_None fdiv_def)

lemma np_mean_all_None: "xs \<noteq> [] \<Longrightarrow> np_mean (map (\<lambda>a. None) xs) = None"
  by (rule np_mean_None) (cases xs; simp)

lemma least_squares_None:
  assumes len: "length x = length y" and n: "None \<in> set x \<or> None \<in> set y"
  shows "least_squares x y = (None, None)"
proof -
  from n len have ne: "x \<noteq> []" "zip x y \<noteq> []" by (cases x; cases y; auto)+
  from n show ?thesis
  proof
    assume "None \<in> set x"
    then have m: "np_mean x = None" by (rule np_mean_None)
    have "(\<lambda>a. fmul (fsub a None) (fsub a None)) = (\<lambda>a. None)"
      by (auto simp: fsub_def fmul_def split: option.splits)
    then have "np_mean (map (\<lambda>a. fmul (fsub a None) (fsub a None)) x) = None"
      using np_mean_all_None[OF ne(1)] by simp
    then show ?thesis
      by (simp add: least_squares_def Let_def m fdiv_def fmul_def fsub_def split: option.splits)
  next
    assume "None \<in> set y"
    then have m: "np_mean y = None" by (rule np_mean_None)
    have "(\<lambda>(a, b). fmul (fsub a (np_mean x)) (fsub b None)) = (\<lambda>p. None)"
      by (auto simp: fsub_def fmul_def split: option.splits)
    then have "np_mean (map (\<lambda>(a, b). fmul (fsub a (np_mean x)) (fsub b None)) (zip x y)) = None"
      using np_mean_all_None[OF ne(2)] by simp
    then show ?thesis
      by (simp add: least_squares_def Let_def m fdiv_def fmul_def fsub_def split: option.splits)
  qed
qed

lemma loglog_fit_nonpositive:
  assumes "length cells = length idx"
    and "(\<exists>i. i \<in> set idx \<and> i \<le> 0) \<or> (\<exists>v. Some v \<in> set cells \<and> v \<le> 0)"
  shows "loglog_fit idx cells = (None, None)"
proof -
  from assms(2) have "None \<in> set (map (\<lambda>i. np_log (Some i)) idx) \<or> None \<in> set (map np_log cells)"
  proof
    assume "\<exists>i. i \<in> set idx \<and> i \<le> 0"
    then obtain i where "i \<in> set idx" "i \<le> 0" by blast
    then have "np_log (Some i) = None" and "np_log (Some i) \<in> set (map (\<lambda>i. np_log (Some i)) idx)"
      by (simp add: np_log_def, simp)
    then show ?thesis by metis
  next
    assume "\<exists>v. Some v \<in> set cells \<and> v \<le> 0"
    then obtain v where "Some v \<in> set cells" "v \<le> 0" by blast
    then have "np_log (Some v) = None" and "np_log (Some v) \<in> set (map np_log cells)"
      by (simp add: np_log_def, simp)
    then show ?thesis by metis
  qed
  then show ?thesis
    unfolding loglog_fit_def using assms(1) by (intro least_squares_None) simp_all
qed

lemma powerlaw_loop_error:
  "powerlaw_loop x idx cols st = Inl (e, calls) \<Longrightarrow> e = ValueError"
proof (induction cols arbitrary: st)
  case Nil
  then show ?case by simp
next
  case (Cons a cols)
  obtain col cells where a: "a = (col, cells)" by (cases a)
  obtain vals fits cs where st: "st = (vals, fits, cs)" by (cases st)
  from Cons.prems show ?case
    unfolding a st
    by (auto simp: Let_def linregress_def split: sum.splits if_splits prod.splits dest: Cons.IH)
qed

lemma fit_powerlaw_error: "snd (fit_powerlaw T pl) = Inl e \<Longrightarrow> e = ValueError \<or> e = ConcatError"
  by (auto simp: fit_powerlaw_def Let_def pd_concat_def
      split: sum.splits prod.splits list.splits if_splits dest: powerlaw_loop_error)

text \<open>
  C6, as the code has it.  \<open>fit_powerlaw\<close> has no domain check.  On a table without
  missing values in which some \<open>x\<close> is not positive, or some value of a column is not
  positive, the call returns as usual and the \<open>n\<close> and the \<open>A\<close> of that column are NaN.
  The only errors a call can end in are the one of the regression on arrays of
  different lengths and the one of concatenating no column.
\<close>

theorem fit_powerlaw_nonpositive:
  assumes F: "list_all (\<lambda>(c, cells). full_column (index T) cells) (columns T)"
    and D: "distinct (map fst (columns T))"
    and K: "k < length (columns T)" "columns T ! k = (c, cells)"
    and bad: "(\<exists>i. i \<in> set (index T) \<and> i \<le> 0) \<or> (\<exists>v. Some v \<in> set cells \<and> v \<le> 0)"
  shows "(\<exists>ns as. snd (fit_powerlaw T pl) =
              Inr \<lparr>index = map fst (columns T), columns = [(''n'', ns), (''A'', as)]\<rparr> \<and>
            ns ! k = None \<and> as ! k = None) \<and>
         (\<forall>e. snd (fit_powerlaw T0 pl0) = Inl e \<longrightarrow> e = ValueError \<or> e = ConcatError)"
proof (intro conjI allI impI)
  from K have N: "columns T \<noteq> []" by auto
  from K have m: "(c, cells) \<in> set (columns T)" by (metis nth_mem)
  with F have "full_column (index T) cells" by (auto simp: list_all_iff)
  then have len: "length cells = length (index T)" by (simp add: full_column_def)
  have z: "loglog_fit (index T) cells = (None, None)"
    by (rule loglog_fit_nonpositive[OF len bad])
  show "\<exists>ns as. snd (fit_powerlaw T pl) =
              Inr \<lparr>index = map fst (columns T), columns = [(''n'', ns), (''A'', as)]\<rparr> \<and>
            ns ! k = None \<and> as ! k = None"
    using K z by (simp add: fit_powerlaw_full[OF F D N] np_exp_def)
next
  fix e
  assume "snd (fit_powerlaw T0 pl0) = Inl e"
  then show "e = ValueError \<or> e = ConcatError" by (rule fit_powerlaw_error)
qed

theorem fit_powerlaw_nonpositive_witness:
  "snd (fit_powerlaw neg_table False) =
     Inr \<lparr>index = [''a''], columns = [(''n'', [None]), (''A'', [None])]\<rparr> \<and>
   snd (fit_powerlaw gap_table False) = Inl ValueError"
proof -
  have F: "list_all (\<lambda>(c, cells). full_column (index neg_table) cells) (columns neg_table)"
    by (simp add: neg_table_def full_column_def)
  have D: "distinct (map fst (columns neg_table))" by (simp add: neg_table_def)
  have K: "0 < length (columns neg_table)" "columns neg_table ! 0 = (''a'', [Some (- 1), Some 1])"
    by (simp_all add: neg_table_def)
  have bad: "(\<exists>i. i \<in> set (index neg_table) \<and> i \<le> 0) \<or>
             (\<exists>v. Some v \<in> set [Some (- 1), Some (1::real)] \<and> v \<le> 0)"
    by (intro disjI2 exI[of _ "- 1"]) simp
  note t = fit_powerlaw_nonpositive[OF F D K bad, of False gap_table False]
  from conjunct1[OF t] obtain ns as where
    r: "snd (fit_powerlaw neg_table False) =
          Inr \<lparr>index = map fst (columns neg_table), columns = [(''n'', ns), (''A'', as)]\<rparr>"
       "ns ! 0 = None" "as ! 0 = None" by blast
  have N: "columns neg_table \<noteq> []" by (simp add: neg_table_def)
  have l: "snd (fit_powerlaw neg_table False) =
     Inr \<lparr>index = [''a''], columns = [(''n'', [None]), (''A'', [None])]\<rparr>"
    by (simp add: fit_powerlaw_full[OF F D N])
       (simp add: neg_table_def neg_fit np_exp_def)
  have g: "snd (fit_powerlaw gap_table False) = Inl ValueError"
    by (simp add: fit_powerlaw_def gap_table_def x_axis_def linregress_def series_apply_def
          dropna_def column_series_def)
  from conjunct2[OF t, rule_format, OF g] r l g show ?thesis by simp
qed

text \<open>
  C6 fails as stated: the first value of the column is \<open>-1\<close>, and the call returns a
  table with NaN for \<open>n\<close> and for \<open>A\<close>, after printing them; it does not end in an
  error.
\<close>

theorem fit_powerlaw_silent_nan:
  "fit_powerlaw neg_table False =
     ([Print_call None None],
      Inr \<lparr>index = [''a''], columns = [(''n'', [None]), (''A'', [None])]\<rparr>)"
proof -
  have F: "list_all (\<lambda>(c, cells). full_column (index neg_table) cells) (columns neg_table)"
    by (simp add: neg_table_def full_column_def)
  have D: "distinct (map fst (columns neg_table))" by (simp add: neg_table_def)
  have N: "columns neg_table \<noteq> []" by (simp add: neg_table_def)
  show ?thesis
    by (simp add: fit_powerlaw_full[OF F D N])
       (simp add: neg_table_def neg_fit np_exp_def)
qed

end
